theory Spec2Isabelle
  imports Main "HOL-Library.Word"
begin

section \<open>Exceptions and results\<close>

text \<open>
  The exceptions that \<^verbatim>\<open>bas.py\<close> raises or lets through. \<open>StructError\<close> is
  \<^verbatim>\<open>struct.error\<close>; \<open>OSError\<close> stands for what \<^verbatim>\<open>open\<close> raises on a path that
  exists and cannot be read. A computation that may raise returns \<open>error + 'a\<close>, with
  \<open>Inl\<close> for the exception.
\<close>

datatype error =
  FileNotFoundError | OSError | ValueError | KeyError | TypeError | StructError | OverflowError

definition bind :: "error + 'a \<Rightarrow> ('a \<Rightarrow> error + 'b) \<Rightarrow> error + 'b" where
  "bind m f = (case m of Inl e \<Rightarrow> Inl e | Inr x \<Rightarrow> f x)"

section \<open>Sound ID lookup table\<close>

text \<open>
  \<^verbatim>\<open>self._lookup_\<close> is a Python \<^verbatim>\<open>dict\<close> from sound names to IDs. A dict iterates in
  insertion order, and assigning to a key that is already present keeps the key's place and
  replaces its value: an association list with distinct keys, updated in place.
\<close>

type_synonym lookup = "(string \<times> int) list"

fun dict_set :: "'k \<Rightarrow> 'v \<Rightarrow> ('k \<times> 'v) list \<Rightarrow> ('k \<times> 'v) list" where
  "dict_set k v [] = [(k, v)]"
| "dict_set k v ((k', v') # d) = (if k' = k then (k, v) # d else (k', v') # dict_set k v d)"

subsection \<open>Text of the lookup file\<close>

definition CR :: char where "CR = CHR 0x0D"
definition LF :: char where "LF = CHR 0x0A"

text \<open>
  The file is opened in text mode with the default \<^verbatim>\<open>newline=None\<close>: \<^verbatim>\<open>\r\n\<close> and a
  lone \<^verbatim>\<open>\r\<close> are read as \<^verbatim>\<open>\n\<close>. Latin-1 decodes every byte to one character.
\<close>

fun universal_newlines :: "string \<Rightarrow> string" where
  "universal_newlines [] = []"
| "universal_newlines [c] = [if c = CR then LF else c]"
| "universal_newlines (c # d # cs) =
     (if c = CR \<and> d = LF then LF # universal_newlines cs
      else if c = CR then LF # universal_newlines (d # cs)
      else c # universal_newlines (d # cs))"

text \<open>\<^verbatim>\<open>readlines()\<close>: the lines, each with its terminating \<^verbatim>\<open>\n\<close>; the last one may lack it.\<close>

fun lines_from :: "string \<Rightarrow> string \<Rightarrow> string list" where
  "lines_from cur [] = (if cur = [] then [] else [cur])"
| "lines_from cur (c # cs) =
     (if c = LF then (cur @ [c]) # lines_from [] cs else lines_from (cur @ [c]) cs)"

definition readlines :: "string \<Rightarrow> string list" where
  "readlines text = lines_from [] (universal_newlines text)"

text \<open>\<^verbatim>\<open>field.strip("\r\n")\<close> removes the characters CR and LF from both ends.\<close>

definition strip_crlf :: "string \<Rightarrow> string" where
  "strip_crlf s =
     rev (dropWhile (\<lambda>c. c = CR \<or> c = LF) (rev (dropWhile (\<lambda>c. c = CR \<or> c = LF) s)))"

text \<open>\<^verbatim>\<open>s.split(",")\<close>: the fields between the commas, at least one.\<close>

fun split_from :: "string \<Rightarrow> string \<Rightarrow> string list" where
  "split_from cur [] = [cur]"
| "split_from cur (c # cs) =
     (if c = CHR '','' then cur # split_from [] cs else split_from (cur @ [c]) cs)"

definition split_comma :: "string \<Rightarrow> string list" where
  "split_comma s = split_from [] s"

subsection \<open>The builtin \<^verbatim>\<open>int(str)\<close>\<close>

text \<open>
  \<^verbatim>\<open>int(s)\<close> in base 10 on Latin-1 text, after CPython's \<^verbatim>\<open>PyLong_FromString\<close>:
  whitespace is skipped at both ends, one sign is allowed, and the digits may be separated
  by single underscores. The whitespace characters are the ASCII ones and, of the upper half
  of Latin-1, NEL (0x85) and the no-break space (0xA0). A literal of more than 4300 digits,
  leading zeros counted and underscores not, is refused: the interpreter's limit on the
  conversion (\<^verbatim>\<open>sys.int_max_str_digits\<close>) at its default.
\<close>

definition int_max_str_digits :: nat where
  "int_max_str_digits = 4300"

definition py_isspace :: "char \<Rightarrow> bool" where
  "py_isspace c = ((of_char c :: nat) \<in> {9, 10, 11, 12, 13, 32, 133, 160})"

definition py_isdigit :: "char \<Rightarrow> bool" where
  "py_isdigit c = (48 \<le> (of_char c :: nat) \<and> (of_char c :: nat) \<le> 57)"

fun has_double_underscore :: "string \<Rightarrow> bool" where
  "has_double_underscore (a # b # cs) =
     ((a = CHR ''_'' \<and> b = CHR ''_'') \<or> has_double_underscore (b # cs))"
| "has_double_underscore _ = False"

fun digits_value :: "nat \<Rightarrow> string \<Rightarrow> nat" where
  "digits_value acc [] = acc"
| "digits_value acc (c # cs) =
     (if c = CHR ''_'' then digits_value acc cs
      else digits_value (10 * acc + (of_char c - 48)) cs)"

definition strip_sign :: "string \<Rightarrow> bool \<times> string" where
  "strip_sign s =
     (case s of
        [] \<Rightarrow> (False, [])
      | c # r \<Rightarrow> if c = CHR ''+'' then (False, r) else if c = CHR ''-'' then (True, r) else (False, s))"

definition py_int :: "string \<Rightarrow> error + int" where
  "py_int s =
     (let (neg, body) = strip_sign (dropWhile py_isspace s);
          ds = takeWhile (\<lambda>c. py_isdigit c \<or> c = CHR ''_'') body;
          rest = dropWhile (\<lambda>c. py_isdigit c \<or> c = CHR ''_'') body
      in if ds = [] \<or> hd ds = CHR ''_'' \<or> last ds = CHR ''_'' \<or> has_double_underscore ds
            \<or> dropWhile py_isspace rest \<noteq> []
            \<or> length (filter py_isdigit ds) > int_max_str_digits
         then Inl ValueError
         else Inr (if neg then - int (digits_value 0 ds) else int (digits_value 0 ds)))"

subsection \<open>\<^verbatim>\<open>JAUSoundIdTable\<close>\<close>

text \<open>
  What \<^verbatim>\<open>lookup_file_path\<close> names: nothing (\<^verbatim>\<open>os.path.exists\<close> is false), something
  that exists and that \<^verbatim>\<open>open\<close> refuses, or a file with its bytes as Latin-1 text.
\<close>

datatype source = Missing | Unreadable | FileText string

text \<open>
  The loop of \<^verbatim>\<open>__init__\<close> over the lines. The tuple assignment needs exactly two fields;
  with any other number it raises \<open>ValueError\<close>, as \<^verbatim>\<open>int\<close> does on a bad literal.
\<close>

fun add_fields :: "lookup \<Rightarrow> string list \<Rightarrow> error + lookup" where
  "add_fields d [] = Inr d"
| "add_fields d (field # fields) =
     (case split_comma (strip_crlf field) of
        [sound_name, sound_id_str] \<Rightarrow>
          (case py_int sound_id_str of
             Inl e \<Rightarrow> Inl e
           | Inr sound_id \<Rightarrow> add_fields (dict_set sound_name sound_id d) fields)
      | _ \<Rightarrow> Inl ValueError)"

definition JAUSoundIdTable_init :: "source \<Rightarrow> error + lookup" where
  "JAUSoundIdTable_init src =
     (case src of
        Missing \<Rightarrow> Inl FileNotFoundError
      | Unreadable \<Rightarrow> Inl OSError
      | FileText text \<Rightarrow> add_fields [] (readlines text))"

fun find_name :: "lookup \<Rightarrow> int \<Rightarrow> error + string" where
  "find_name [] sound_id = Inl KeyError"
| "find_name ((name, index) # d) sound_id =
     (if index = sound_id then Inr name else find_name d sound_id)"

section \<open>Python values\<close>

text \<open>
  Attributes of the Python objects are untyped: \<^verbatim>\<open>from_json\<close> stores whatever the JSON
  document holds. The values are those of a JSON document. A \<^verbatim>\<open>float\<close> is an IEEE 754
  binary64 number, kept as its bit pattern (\<open>0.0\<close> is \<open>0\<close>, \<open>1.0\<close> is
  \<open>0x3FF0000000000000\<close>). A dict with string keys is an association list.
\<close>

datatype pyval =
  PyNone | PyBool bool | PyInt int | PyFloat "64 word" | PyStr string
  | PyList "pyval list" | PyDict "(string \<times> pyval) list"

text \<open>\<^verbatim>\<open>self._lookup_[sound_name]\<close>, for any key: a key that cannot be hashed is a
  \<open>TypeError\<close>, any other key that is not a name of the table a \<open>KeyError\<close>.\<close>

definition find_id :: "lookup \<Rightarrow> pyval \<Rightarrow> error + int" where
  "find_id d sound_name =
     (case sound_name of
        PyStr s \<Rightarrow> (case map_of d s of None \<Rightarrow> Inl KeyError | Some i \<Rightarrow> Inr i)
      | PyList _ \<Rightarrow> Inl TypeError
      | PyDict _ \<Rightarrow> Inl TypeError
      | _ \<Rightarrow> Inl KeyError)"

section \<open>The \<^verbatim>\<open>struct\<close> module\<close>

type_synonym byte = "8 word"

text \<open>
  The conversions between a binary64 \<^verbatim>\<open>float\<close> and the binary32 of format code
  \<^verbatim>\<open>f\<close> are done by the interpreter and the hardware, and what they do to a NaN differs
  between platforms. They are parameters of the model: \<open>f32_unpack\<close> widens the four
  bytes read, \<open>f32_pack\<close> rounds a float to binary32 (\<open>None\<close>: \<open>OverflowError\<close>,
  the float is too large), \<open>int_as_double\<close> is \<^verbatim>\<open>float(int)\<close> (\<open>None\<close>: the int is
  too large).
\<close>

record float_ops =
  f32_unpack :: "32 word \<Rightarrow> 64 word"
  f32_pack :: "64 word \<Rightarrow> 32 word option"
  int_as_double :: "int \<Rightarrow> 64 word option"

fun le_bytes :: "nat \<Rightarrow> int \<Rightarrow> byte list" where
  "le_bytes 0 v = []"
| "le_bytes (Suc n) v = word_of_int v # le_bytes n (v div 256)"

fun le_int :: "byte list \<Rightarrow> int" where
  "le_int [] = 0"
| "le_int (b # bs) = uint b + 256 * le_int bs"

definition to_bytes :: "bool \<Rightarrow> nat \<Rightarrow> int \<Rightarrow> byte list" where
  "to_bytes big_endian n v = (if big_endian then rev (le_bytes n v) else le_bytes n v)"

definition from_bytes :: "bool \<Rightarrow> byte list \<Rightarrow> int" where
  "from_bytes big_endian bs = le_int (if big_endian then rev bs else bs)"

text \<open>The format codes used: \<^verbatim>\<open>H\<close>, \<^verbatim>\<open>I\<close>, \<^verbatim>\<open>B\<close> (unsigned, 2, 4 and 1 bytes),
  \<^verbatim>\<open>f\<close> and the pad byte \<^verbatim>\<open>x\<close>. A \<^verbatim>\<open>struct.Struct\<close> is its list of codes.\<close>

datatype fmt = H | I | B | F | X

fun fmt_size :: "fmt \<Rightarrow> nat" where
  "fmt_size H = 2"
| "fmt_size I = 4"
| "fmt_size B = 1"
| "fmt_size F = 4"
| "fmt_size X = 1"

definition calcsize :: "fmt list \<Rightarrow> nat" where
  "calcsize fs = sum_list (map fmt_size fs)"

text \<open>An integer code takes an \<^verbatim>\<open>int\<close> (or \<^verbatim>\<open>bool\<close>) within the range of its width;
  anything else is a \<^verbatim>\<open>struct.error\<close>.\<close>

definition pack_uint :: "bool \<Rightarrow> nat \<Rightarrow> pyval \<Rightarrow> error + byte list" where
  "pack_uint big_endian n v =
     (case v of
        PyInt i \<Rightarrow> if 0 \<le> i \<and> i < 256 ^ n then Inr (to_bytes big_endian n i) else Inl StructError
      | PyBool b \<Rightarrow> Inr (to_bytes big_endian n (if b then 1 else 0))
      | _ \<Rightarrow> Inl StructError)"

text \<open>Code \<^verbatim>\<open>f\<close> takes a number. Failing to get a float from the argument is a
  \<^verbatim>\<open>struct.error\<close>; a float beyond binary32 is an \<open>OverflowError\<close>, which
  \<^verbatim>\<open>struct\<close> turns into a \<^verbatim>\<open>struct.error\<close> where the argument is an \<^verbatim>\<open>int\<close>.\<close>

definition pack_double :: "float_ops \<Rightarrow> bool \<Rightarrow> 64 word \<Rightarrow> error + byte list" where
  "pack_double fo big_endian x =
     (case f32_pack fo x of
        None \<Rightarrow> Inl OverflowError
      | Some w \<Rightarrow> Inr (to_bytes big_endian 4 (uint w)))"

definition pack_int_as_float :: "float_ops \<Rightarrow> bool \<Rightarrow> int \<Rightarrow> error + byte list" where
  "pack_int_as_float fo big_endian i =
     (case int_as_double fo i of
        None \<Rightarrow> Inl StructError
      | Some x \<Rightarrow>
          (case pack_double fo big_endian x of
             Inl e \<Rightarrow> Inl StructError
           | Inr packed \<Rightarrow> Inr packed))"

definition pack_float :: "float_ops \<Rightarrow> bool \<Rightarrow> pyval \<Rightarrow> error + byte list" where
  "pack_float fo big_endian v =
     (case v of
        PyFloat x \<Rightarrow> pack_double fo big_endian x
      | PyInt i \<Rightarrow> pack_int_as_float fo big_endian i
      | PyBool b \<Rightarrow> pack_int_as_float fo big_endian (if b then 1 else 0)
      | _ \<Rightarrow> Inl StructError)"

text \<open>Packing converts the values from left to right and stops at the first that fails.
  Pad bytes are zero.\<close>

fun struct_pack :: "float_ops \<Rightarrow> bool \<Rightarrow> fmt list \<Rightarrow> pyval list \<Rightarrow> error + byte list" where
  "struct_pack fo big_endian [] [] = Inr []"
| "struct_pack fo big_endian (X # fs) vs =
     bind (struct_pack fo big_endian fs vs) (\<lambda>r. Inr (0 # r))"
| "struct_pack fo big_endian (F # fs) (v # vs) =
     bind (pack_float fo big_endian v) (\<lambda>b.
     bind (struct_pack fo big_endian fs vs) (\<lambda>r. Inr (b @ r)))"
| "struct_pack fo big_endian (c # fs) (v # vs) =
     bind (pack_uint big_endian (fmt_size c) v) (\<lambda>b.
     bind (struct_pack fo big_endian fs vs) (\<lambda>r. Inr (b @ r)))"
| "struct_pack fo big_endian _ _ = Inl StructError"

fun struct_unpack :: "float_ops \<Rightarrow> bool \<Rightarrow> fmt list \<Rightarrow> byte list \<Rightarrow> pyval list" where
  "struct_unpack fo big_endian [] bs = []"
| "struct_unpack fo big_endian (X # fs) bs = struct_unpack fo big_endian fs (drop 1 bs)"
| "struct_unpack fo big_endian (F # fs) bs =
     PyFloat (f32_unpack fo (word_of_int (from_bytes big_endian (take 4 bs))))
       # struct_unpack fo big_endian fs (drop 4 bs)"
| "struct_unpack fo big_endian (c # fs) bs =
     PyInt (from_bytes big_endian (take (fmt_size c) bs))
       # struct_unpack fo big_endian fs (drop (fmt_size c) bs)"

text \<open>
  Where \<^verbatim>\<open>unpack_from\<close> and \<^verbatim>\<open>pack_into\<close> start in a buffer of \<open>len\<close> bytes: a
  negative offset counts from the end, and the \<open>sz\<close> bytes of the struct must lie within
  the buffer.
\<close>

definition struct_offset :: "nat \<Rightarrow> int \<Rightarrow> nat \<Rightarrow> error + nat" where
  "struct_offset len offset sz =
     (if offset < 0 \<and> (offset + int sz > 0 \<or> offset + int len < 0) then Inl StructError
      else let start = (if offset < 0 then offset + int len else offset)
           in if int len - start < int sz then Inl StructError else Inr (nat start))"

definition unpack_from ::
  "float_ops \<Rightarrow> bool \<Rightarrow> fmt list \<Rightarrow> byte list \<Rightarrow> int \<Rightarrow> error + pyval list" where
  "unpack_from fo big_endian strct data off =
     bind (struct_offset (length data) off (calcsize strct)) (\<lambda>start.
     Inr (struct_unpack fo big_endian strct (take (calcsize strct) (drop start data))))"

text \<open>\<^verbatim>\<open>pack_into\<close> checks the offset first, then packs the values; the buffer is a
  \<^verbatim>\<open>bytearray\<close>, and the model returns its new contents.\<close>

definition pack_into ::
  "float_ops \<Rightarrow> bool \<Rightarrow> fmt list \<Rightarrow> byte list \<Rightarrow> int \<Rightarrow> pyval list \<Rightarrow> error + byte list" where
  "pack_into fo big_endian strct buffer off vs =
     bind (struct_offset (length buffer) off (calcsize strct)) (\<lambda>start.
     bind (struct_pack fo big_endian strct vs) (\<lambda>packed.
     Inr (take start buffer @ packed @ drop (start + calcsize strct) buffer)))"

section \<open>JAudio sound animation\<close>

subsection \<open>\<^verbatim>\<open>JAUSoundAnimationSound\<close>\<close>

record JAUSoundAnimationSound =
  sound :: pyval
  start_frame :: pyval
  unk8 :: pyval
  pitch :: pyval
  flags :: pyval
  volume :: pyval
  pitch_factor :: pyval
  unk16 :: pyval
  pan :: pyval
  volume_factor :: pyval
  unk19 :: pyval

text \<open>\<^verbatim>\<open>__STRUCT_BE__\<close> and \<^verbatim>\<open>__STRUCT_LE__\<close> are \<^verbatim>\<open>I3fI6B6x\<close> in the two byte
  orders; the order is the argument \<open>big_endian\<close> of the packing functions.\<close>

definition sound_STRUCT :: "fmt list" where
  "sound_STRUCT = [I, F, F, F, I, B, B, B, B, B, B, X, X, X, X, X, X]"

definition JAUSoundAnimationSound_init :: JAUSoundAnimationSound where
  "JAUSoundAnimationSound_init =
     \<lparr>sound = PyStr [], start_frame = PyFloat 0, unk8 = PyFloat 0,
      pitch = PyFloat 0x3FF0000000000000, flags = PyInt 0, volume = PyInt 127,
      pitch_factor = PyInt 0, unk16 = PyInt 0, pan = PyInt 64, volume_factor = PyInt 0,
      unk19 = PyInt 0\<rparr>"

text \<open>
  \<^verbatim>\<open>_unpack_\<close>: the tuple assignment sets the ten playback attributes together, then the
  name is looked up. The ID read is always an \<^verbatim>\<open>int\<close>.
\<close>

definition JAUSoundAnimationSound_unpack ::
  "float_ops \<Rightarrow> JAUSoundAnimationSound \<Rightarrow> byte list \<Rightarrow> int \<Rightarrow> bool \<Rightarrow> lookup
     \<Rightarrow> error + JAUSoundAnimationSound" where
  "JAUSoundAnimationSound_unpack fo self data off is_big_endian lookup =
     bind (unpack_from fo is_big_endian sound_STRUCT data off) (\<lambda>t.
       case t of
         [sound_id, v1, v2, v3, v4, v5, v6, v7, v8, v9, v10] \<Rightarrow>
           (case sound_id of
              PyInt i \<Rightarrow>
                bind (find_name lookup i) (\<lambda>name.
                  Inr (self\<lparr>sound := PyStr name, start_frame := v1, unk8 := v2, pitch := v3,
                         flags := v4, volume := v5, pitch_factor := v6, unk16 := v7, pan := v8,
                         volume_factor := v9, unk19 := v10\<rparr>))
            | _ \<Rightarrow> Inl KeyError)
       | _ \<Rightarrow> Inl ValueError)"

text \<open>\<^verbatim>\<open>_pack_\<close>: the ID is looked up while the arguments are evaluated, before
  \<^verbatim>\<open>pack_into\<close> is entered.\<close>

definition JAUSoundAnimationSound_pack ::
  "float_ops \<Rightarrow> JAUSoundAnimationSound \<Rightarrow> byte list \<Rightarrow> int \<Rightarrow> bool \<Rightarrow> lookup
     \<Rightarrow> error + byte list" where
  "JAUSoundAnimationSound_pack fo self data off is_big_endian lookup =
     bind (find_id lookup (sound self)) (\<lambda>sound_id.
       pack_into fo is_big_endian sound_STRUCT data off
         [PyInt sound_id, start_frame self, unk8 self, pitch self, flags self, volume self,
          pitch_factor self, unk16 self, pan self, volume_factor self, unk19 self])"

subsection \<open>\<^verbatim>\<open>JAUSoundAnimation\<close>\<close>

text \<open>The class extends \<^verbatim>\<open>list\<close>: \<open>items\<close> are the elements of the list itself;
  \<open>lookup_of\<close> is the attribute \<^verbatim>\<open>_lookup_\<close>.\<close>

record JAUSoundAnimation =
  items :: "JAUSoundAnimationSound list"
  lookup_of :: lookup
  unk2 :: pyval
  unk3 :: pyval

definition anm_STRUCT :: "fmt list" where
  "anm_STRUCT = [H, B, B, X, X, X, X]"

definition JAUSoundAnimation_init :: "lookup \<Rightarrow> JAUSoundAnimation" where
  "JAUSoundAnimation_init lookup = \<lparr>items = [], lookup_of = lookup, unk2 = PyInt 0, unk3 = PyInt 0\<rparr>"

text \<open>The loop \<^verbatim>\<open>for _ in range(num_entries)\<close> of \<^verbatim>\<open>_unpack_\<close>: an exception leaves
  it, and nothing is returned.\<close>

fun unpack_sounds ::
  "float_ops \<Rightarrow> JAUSoundAnimation \<Rightarrow> byte list \<Rightarrow> int \<Rightarrow> bool \<Rightarrow> nat \<Rightarrow> error + JAUSoundAnimation" where
  "unpack_sounds fo self data off is_big_endian 0 = Inr self"
| "unpack_sounds fo self data off is_big_endian (Suc n) =
     bind (JAUSoundAnimationSound_unpack fo JAUSoundAnimationSound_init data off is_big_endian
             (lookup_of self)) (\<lambda>sound.
       unpack_sounds fo (self\<lparr>items := items self @ [sound]\<rparr>) data (off + 32) is_big_endian n)"

definition JAUSoundAnimation_unpack ::
  "float_ops \<Rightarrow> JAUSoundAnimation \<Rightarrow> byte list \<Rightarrow> int \<Rightarrow> bool \<Rightarrow> error + JAUSoundAnimation" where
  "JAUSoundAnimation_unpack fo self data off is_big_endian =
     bind (unpack_from fo is_big_endian anm_STRUCT data off) (\<lambda>t.
       case t of
         [num_entries, u2, u3] \<Rightarrow>
           (case num_entries of
              PyInt n \<Rightarrow>
                unpack_sounds fo (self\<lparr>unk2 := u2, unk3 := u3\<rparr>) data (off + 8) is_big_endian (nat n)
            | _ \<Rightarrow> Inl TypeError)
       | _ \<Rightarrow> Inl ValueError)"

text \<open>The loop \<^verbatim>\<open>for sound in self\<close> of \<^verbatim>\<open>makebin\<close>, on the buffer and \<^verbatim>\<open>off_tmp\<close>.\<close>

fun pack_sounds ::
  "float_ops \<Rightarrow> byte list \<Rightarrow> int \<Rightarrow> bool \<Rightarrow> lookup \<Rightarrow> JAUSoundAnimationSound list
     \<Rightarrow> error + byte list" where
  "pack_sounds fo buffer off_tmp is_big_endian lookup [] = Inr buffer"
| "pack_sounds fo buffer off_tmp is_big_endian lookup (s # sounds) =
     bind (JAUSoundAnimationSound_pack fo s buffer off_tmp is_big_endian lookup) (\<lambda>buffer'.
       pack_sounds fo buffer' (off_tmp + 32) is_big_endian lookup sounds)"

definition makebin :: "float_ops \<Rightarrow> JAUSoundAnimation \<Rightarrow> bool \<Rightarrow> error + byte list" where
  "makebin fo self is_big_endian =
     (let buffer = replicate (8 + length (items self) * 32) 0
      in bind (pack_into fo is_big_endian anm_STRUCT buffer 0
                 [PyInt (int (length (items self))), unk2 self, unk3 self]) (\<lambda>buffer'.
           pack_sounds fo buffer' 8 is_big_endian (lookup_of self) (items self)))"

subsection \<open>Helper I/O functions\<close>

definition from_buffer ::
  "float_ops \<Rightarrow> lookup \<Rightarrow> byte list \<Rightarrow> int \<Rightarrow> bool \<Rightarrow> error + JAUSoundAnimation" where
  "from_buffer fo lookup buffer offset big_endian =
     JAUSoundAnimation_unpack fo (JAUSoundAnimation_init lookup) buffer offset big_endian"

definition pack_buffer :: "float_ops \<Rightarrow> JAUSoundAnimation \<Rightarrow> bool \<Rightarrow> error + byte list" where
  "pack_buffer fo soundanm big_endian = makebin fo soundanm big_endian"

text \<open>
  \<^verbatim>\<open>dump_json\<close> builds the document \<^verbatim>\<open>dumped\<close> and writes it; \<^verbatim>\<open>from_json\<close> loads a
  document and reads it. The model stops at the document: \<open>dump_json\<close> returns it and
  \<open>from_json\<close> takes it. \<^verbatim>\<open>sound.__dict__\<close> holds the attributes in the order in
  which \<^verbatim>\<open>__init__\<close> sets them.
\<close>

definition sound_dict :: "JAUSoundAnimationSound \<Rightarrow> pyval" where
  "sound_dict s =
     PyDict [(''sound'', sound s), (''start_frame'', start_frame s), (''unk8'', unk8 s),
             (''pitch'', pitch s), (''flags'', flags s), (''volume'', volume s),
             (''pitch_factor'', pitch_factor s), (''unk16'', unk16 s), (''pan'', pan s),
             (''volume_factor'', volume_factor s), (''unk19'', unk19 s)]"

definition dump_json :: "JAUSoundAnimation \<Rightarrow> pyval" where
  "dump_json soundanm =
     PyDict [(''unk2'', unk2 soundanm), (''unk3'', unk3 soundanm),
             (''sounds'', PyList (map sound_dict (items soundanm)))]"

text \<open>\<^verbatim>\<open>obj[key]\<close> with a string key: a dict gives the value or a \<open>KeyError\<close>; a list,
  a string, a number or \<^verbatim>\<open>None\<close> raises \<open>TypeError\<close>.\<close>

definition getitem :: "pyval \<Rightarrow> string \<Rightarrow> error + pyval" where
  "getitem obj key =
     (case obj of
        PyDict kvs \<Rightarrow> (case map_of kvs key of None \<Rightarrow> Inl KeyError | Some v \<Rightarrow> Inr v)
      | _ \<Rightarrow> Inl TypeError)"

text \<open>What a \<^verbatim>\<open>for\<close> loop goes through: the elements of a list, the keys of a dict, the
  characters of a string; other values cannot be iterated.\<close>

definition iter :: "pyval \<Rightarrow> error + pyval list" where
  "iter obj =
     (case obj of
        PyList xs \<Rightarrow> Inr xs
      | PyDict kvs \<Rightarrow> Inr (map (\<lambda>kv. PyStr (fst kv)) kvs)
      | PyStr cs \<Rightarrow> Inr (map (\<lambda>c. PyStr [c]) cs)
      | _ \<Rightarrow> Inl TypeError)"

text \<open>The body of the loop of \<^verbatim>\<open>from_json\<close>, as the source has it: the value of
  \<^verbatim>\<open>start_frame\<close> is stored in \<^verbatim>\<open>sound.sound\<close>, and the key \<^verbatim>\<open>sound\<close> is not read.\<close>

definition sound_from_entry :: "pyval \<Rightarrow> error + JAUSoundAnimationSound" where
  "sound_from_entry sound_entry =
     bind (getitem sound_entry ''start_frame'') (\<lambda>j0.
     bind (getitem sound_entry ''unk8'') (\<lambda>j1.
     bind (getitem sound_entry ''pitch'') (\<lambda>j2.
     bind (getitem sound_entry ''flags'') (\<lambda>j3.
     bind (getitem sound_entry ''volume'') (\<lambda>j4.
     bind (getitem sound_entry ''pitch_factor'') (\<lambda>j5.
     bind (getitem sound_entry ''unk16'') (\<lambda>j6.
     bind (getitem sound_entry ''pan'') (\<lambda>j7.
     bind (getitem sound_entry ''volume_factor'') (\<lambda>j8.
     bind (getitem sound_entry ''unk19'') (\<lambda>j9.
       Inr (JAUSoundAnimationSound_init\<lparr>sound := j0, unk8 := j1, pitch := j2, flags := j3,
              volume := j4, pitch_factor := j5, unk16 := j6, pan := j7, volume_factor := j8,
              unk19 := j9\<rparr>)))))))))))"

fun append_entries :: "JAUSoundAnimation \<Rightarrow> pyval list \<Rightarrow> error + JAUSoundAnimation" where
  "append_entries soundanm [] = Inr soundanm"
| "append_entries soundanm (sound_entry # rest) =
     bind (sound_from_entry sound_entry) (\<lambda>sound.
       append_entries (soundanm\<lparr>items := items soundanm @ [sound]\<rparr>) rest)"

definition from_json :: "lookup \<Rightarrow> pyval \<Rightarrow> error + JAUSoundAnimation" where
  "from_json lookup jsondata =
     bind (getitem jsondata ''unk2'') (\<lambda>u2.
     bind (getitem jsondata ''unk3'') (\<lambda>u3.
     bind (getitem jsondata ''sounds'') (\<lambda>sounds.
     bind (iter sounds) (\<lambda>entries.
       append_entries ((JAUSoundAnimation_init lookup)\<lparr>unk2 := u2, unk3 := u3\<rparr>) entries))))"

section \<open>The binary32 conversions on IEEE 754 hardware\<close>

text \<open>
  An instance of \<open>float_ops\<close>: the conversions as the C casts between \<^verbatim>\<open>float\<close> and
  \<^verbatim>\<open>double\<close> do them where both are IEEE 754 formats, on the bit patterns. Widening is
  exact; narrowing rounds to nearest, ties to even; a NaN keeps its sign and the top of its
  payload and comes out quiet. The round trips of the codec are proved for this instance.
\<close>

function bit_length :: "int \<Rightarrow> nat" where
  "bit_length n = (if n \<le> 0 then 0 else Suc (bit_length (n div 2)))"
  by pat_completeness auto
termination
  by (relation "measure nat") auto

declare bit_length.simps [simp del]

definition round_half_even :: "int \<Rightarrow> nat \<Rightarrow> int" where
  "round_half_even a k =
     (let q = a div 2 ^ k; r = a mod 2 ^ k
      in if 2 * r > 2 ^ k \<or> (2 * r = 2 ^ k \<and> odd q) then q + 1 else q)"

definition quiet :: "int \<Rightarrow> int" where
  "quiet payload = (if payload < 2 ^ 22 then payload + 2 ^ 22 else payload)"

definition ieee_f32_unpack :: "32 word \<Rightarrow> 64 word" where
  "ieee_f32_unpack x =
     (let w = uint x; s = w div 2 ^ 31; e = (w div 2 ^ 23) mod 2 ^ 8; m = w mod 2 ^ 23
      in word_of_int (s * 2 ^ 63 +
           (if e = 255 then 2047 * 2 ^ 52 + (if m = 0 then 0 else quiet m * 2 ^ 29)
            else if e = 0 then
              (if m = 0 then 0
               else (int (bit_length m) + 873) * 2 ^ 52
                      + (m - 2 ^ (bit_length m - 1)) * 2 ^ (53 - bit_length m))
            else (e + 896) * 2 ^ 52 + m * 2 ^ 29)))"

definition ieee_f32_pack :: "64 word \<Rightarrow> 32 word option" where
  "ieee_f32_pack x =
     (let d = uint x; s = d div 2 ^ 63; e = (d div 2 ^ 52) mod 2 ^ 11; m = d mod 2 ^ 52
      in if e = 2047 then
           Some (word_of_int
                   (s * 2 ^ 31 + 255 * 2 ^ 23 + (if m = 0 then 0 else quiet (m div 2 ^ 29))))
         else if e = 0 \<and> m = 0 then Some (word_of_int (s * 2 ^ 31))
         else
           let sig = (if e = 0 then m else m + 2 ^ 52);
               ex = max e 1 - 1075;
               q = max (ex + int (bit_length sig) - 24) (- 149);
               bits = (q + 149) * 2 ^ 23 + round_half_even sig (nat (q - ex))
           in if bits \<ge> 255 * 2 ^ 23 then None else Some (word_of_int (s * 2 ^ 31 + bits)))"

definition ieee_int_as_double :: "int \<Rightarrow> 64 word option" where
  "ieee_int_as_double i =
     (if i = 0 then Some 0
      else
        let a = \<bar>i\<bar>; s = (if i < 0 then 1 else 0 :: int); p = bit_length a;
            bits = (if p \<le> 53 then (int p + 1022) * 2 ^ 52 + (a * 2 ^ (53 - p) - 2 ^ 52)
                    else (int p + 1021) * 2 ^ 52 + round_half_even a (p - 53))
        in if bits \<ge> 2047 * 2 ^ 52 then None else Some (word_of_int (s * 2 ^ 63 + bits)))"

definition ieee_ops :: float_ops where
  "ieee_ops =
     \<lparr>f32_unpack = ieee_f32_unpack, f32_pack = ieee_f32_pack, int_as_double = ieee_int_as_double\<rparr>"

text \<open>A binary32 and a binary64 pattern from the sign, the exponent field and the
  fraction field.\<close>

definition f32_of :: "int \<Rightarrow> int \<Rightarrow> int \<Rightarrow> 32 word" where
  "f32_of s e m = word_of_int (s * 2 ^ 31 + e * 2 ^ 23 + m)"

definition f64_of :: "int \<Rightarrow> int \<Rightarrow> int \<Rightarrow> 64 word" where
  "f64_of s e m = word_of_int (s * 2 ^ 63 + e * 2 ^ 52 + m)"

text \<open>The binary32 patterns of the signalling NaNs: exponent field 255, fraction not zero
  with its top bit clear.\<close>

definition snan :: "32 word \<Rightarrow> bool" where
  "snan x =
     (let w = uint x; e = (w div 2 ^ 23) mod 2 ^ 8; m = w mod 2 ^ 23
      in e = 255 \<and> 0 < m \<and> m < 2 ^ 22)"

section \<open>Inputs and predicates of the properties\<close>

text \<open>A line of the lookup file on which \<^verbatim>\<open>__init__\<close> raises: it has not exactly two
  fields, or \<^verbatim>\<open>int\<close> rejects the second.\<close>

definition malformed :: "string \<Rightarrow> bool" where
  "malformed field =
     (let fs = split_comma (strip_crlf field)
      in length fs \<noteq> 2 \<or> py_int (fs ! 1) = Inl ValueError)"

text \<open>The lookup file with the lines \<^verbatim>\<open>a,5\<close>, \<^verbatim>\<open>b,5\<close>, \<^verbatim>\<open>a,9\<close>, and the dict built
  from it.\<close>

definition abc_source :: source where
  "abc_source = FileText (''a,5'' @ [LF] @ ''b,5'' @ [LF] @ ''a,9'' @ [LF])"

definition abc_table :: lookup where
  "abc_table = [(''a'', 9), (''b'', 5)]"

fun zero_pad :: "fmt list \<Rightarrow> byte list \<Rightarrow> byte list" where
  "zero_pad [] bs = []"
| "zero_pad (X # fs) bs = 0 # zero_pad fs (drop 1 bs)"
| "zero_pad (c # fs) bs = take (fmt_size c) bs @ zero_pad fs (drop (fmt_size c) bs)"

definition f32_exact :: "float_ops \<Rightarrow> 32 word \<Rightarrow> bool" where
  "f32_exact fo w = (f32_pack fo (f32_unpack fo w) = Some w)"

fun floats_exact :: "float_ops \<Rightarrow> bool \<Rightarrow> fmt list \<Rightarrow> byte list \<Rightarrow> bool" where
  "floats_exact fo be [] bs = True"
| "floats_exact fo be (F # fs) bs =
     (f32_exact fo (word_of_int (from_bytes be (take 4 bs))) \<and> floats_exact fo be fs (drop 4 bs))"
| "floats_exact fo be (c # fs) bs = floats_exact fo be fs (drop (fmt_size c) bs)"

definition f32_fixed :: "float_ops \<Rightarrow> pyval \<Rightarrow> bool" where
  "f32_fixed fo v =
     (case v of
        PyFloat x \<Rightarrow> (case f32_pack fo x of None \<Rightarrow> False | Some w \<Rightarrow> f32_unpack fo w = x)
      | _ \<Rightarrow> False)"

definition uint_fits :: "nat \<Rightarrow> pyval \<Rightarrow> bool" where
  "uint_fits n v = (case v of PyInt i \<Rightarrow> 0 \<le> i \<and> i < 256 ^ n | _ \<Rightarrow> False)"

fun fits :: "float_ops \<Rightarrow> fmt list \<Rightarrow> pyval list \<Rightarrow> bool" where
  "fits fo [] [] = True"
| "fits fo (X # fs) vs = fits fo fs vs"
| "fits fo (F # fs) (v # vs) = (f32_fixed fo v \<and> fits fo fs vs)"
| "fits fo (c # fs) (v # vs) = (uint_fits (fmt_size c) v \<and> fits fo fs vs)"
| "fits fo _ _ = False"

text \<open>The 32 bytes of one entry, and the bytes of a list of entries one after the other:
  what the loop of \<^verbatim>\<open>makebin\<close> writes behind the header.\<close>

definition sound_bytes ::
  "float_ops \<Rightarrow> bool \<Rightarrow> lookup \<Rightarrow> JAUSoundAnimationSound \<Rightarrow> error + byte list" where
  "sound_bytes fo be lk s =
     bind (find_id lk (sound s)) (\<lambda>sound_id.
       struct_pack fo be sound_STRUCT
         [PyInt sound_id, start_frame s, unk8 s, pitch s, flags s, volume s,
          pitch_factor s, unk16 s, pan s, volume_factor s, unk19 s])"

fun sounds_bytes ::
  "float_ops \<Rightarrow> bool \<Rightarrow> lookup \<Rightarrow> JAUSoundAnimationSound list \<Rightarrow> error + byte list" where
  "sounds_bytes fo be lk [] = Inr []"
| "sounds_bytes fo be lk (s # ss) =
     bind (sound_bytes fo be lk s) (\<lambda>b.
     bind (sounds_bytes fo be lk ss) (\<lambda>r. Inr (b @ r)))"

text \<open>One entry read from a chunk of bytes, and \<open>n\<close> entries read from consecutive
  chunks of 32 bytes: what the loop of \<^verbatim>\<open>_unpack_\<close> reads behind the header.\<close>

definition sound_of_chunk ::
  "float_ops \<Rightarrow> bool \<Rightarrow> lookup \<Rightarrow> byte list \<Rightarrow> error + JAUSoundAnimationSound" where
  "sound_of_chunk fo be lk chunk =
     JAUSoundAnimationSound_unpack fo JAUSoundAnimationSound_init chunk 0 be lk"

fun decode_chunks ::
  "float_ops \<Rightarrow> bool \<Rightarrow> lookup \<Rightarrow> nat \<Rightarrow> byte list \<Rightarrow> error + JAUSoundAnimationSound list" where
  "decode_chunks fo be lk 0 data = Inr []"
| "decode_chunks fo be lk (Suc n) data =
     bind (sound_of_chunk fo be lk (take 32 data)) (\<lambda>s.
     bind (decode_chunks fo be lk n (drop 32 data)) (\<lambda>ss. Inr (s # ss)))"

text \<open>The 32 bytes of entry \<open>i\<close> of a buffer that starts with the header.\<close>

definition entry_chunk :: "byte list \<Rightarrow> nat \<Rightarrow> byte list" where
  "entry_chunk buffer i = take 32 (drop (8 + 32 * i) buffer)"

text \<open>A buffer with one entry: sound ID 5, \<open>start_frame\<close> 1.0, \<open>unk8\<close> 0.0, \<open>pitch\<close>
  0.5, flags 7, and the six bytes 1 to 6; and a table that knows the ID 5.\<close>

definition one_entry_buffer :: "byte list" where
  "one_entry_buffer =
     [0, 1, 2, 3, 0, 0, 0, 0,
      0, 0, 0, 5, 0x3F, 0x80, 0, 0, 0, 0, 0, 0, 0x3F, 0, 0, 0, 0, 0, 0, 7,
      1, 2, 3, 4, 5, 6, 0, 0, 0, 0, 0, 0]"

definition one_name_table :: lookup where
  "one_name_table = [(''a'', 5)]"

text \<open>
  The values that \<^verbatim>\<open>struct\<close> accepts. An integer code of \<open>n\<close> bytes takes an \<^verbatim>\<open>int\<close>
  from 0 to \<open>256 ^ n - 1\<close> or a \<^verbatim>\<open>bool\<close>; code \<^verbatim>\<open>f\<close> takes a number that stays within
  binary32 once rounded.
\<close>

definition uint_packs :: "nat \<Rightarrow> pyval \<Rightarrow> bool" where
  "uint_packs n v =
     (case v of PyInt i \<Rightarrow> 0 \<le> i \<and> i < 256 ^ n | PyBool b \<Rightarrow> True | _ \<Rightarrow> False)"

definition double_packs :: "float_ops \<Rightarrow> 64 word option \<Rightarrow> bool" where
  "double_packs fo x = (case x of None \<Rightarrow> False | Some d \<Rightarrow> f32_pack fo d \<noteq> None)"

definition float_packs :: "float_ops \<Rightarrow> pyval \<Rightarrow> bool" where
  "float_packs fo v =
     (case v of
        PyFloat x \<Rightarrow> double_packs fo (Some x)
      | PyInt i \<Rightarrow> double_packs fo (int_as_double fo i)
      | PyBool b \<Rightarrow> double_packs fo (int_as_double fo (if b then 1 else 0))
      | _ \<Rightarrow> False)"

fun packs :: "float_ops \<Rightarrow> fmt list \<Rightarrow> pyval list \<Rightarrow> bool" where
  "packs fo [] [] = True"
| "packs fo (X # fs) vs = packs fo fs vs"
| "packs fo (F # fs) (v # vs) = (float_packs fo v \<and> packs fo fs vs)"
| "packs fo (c # fs) (v # vs) = (uint_packs (fmt_size c) v \<and> packs fo fs vs)"
| "packs fo _ _ = False"

text \<open>An entry whose name the table knows and whose ID and ten attributes its struct
  accepts; an animation whose length and two header attributes the header struct accepts
  and whose entries are all such.\<close>

definition entry_packs :: "float_ops \<Rightarrow> lookup \<Rightarrow> JAUSoundAnimationSound \<Rightarrow> bool" where
  "entry_packs fo lk s =
     (case find_id lk (sound s) of
        Inl e \<Rightarrow> False
      | Inr sound_id \<Rightarrow>
          packs fo sound_STRUCT
            [PyInt sound_id, start_frame s, unk8 s, pitch s, flags s, volume s,
             pitch_factor s, unk16 s, pan s, volume_factor s, unk19 s])"

definition wire_ok :: "float_ops \<Rightarrow> JAUSoundAnimation \<Rightarrow> bool" where
  "wire_ok fo soundanm =
     (length (items soundanm) < 65536 \<and> uint_packs 1 (unk2 soundanm)
      \<and> uint_packs 1 (unk3 soundanm)
      \<and> list_all (entry_packs fo (lookup_of soundanm)) (items soundanm))"

text \<open>An animation of 65536 new entries, whose name (the empty string) is in its table;
  and an animation of two new entries, the second with a name and a volume assigned.\<close>

definition big_animation :: JAUSoundAnimation where
  "big_animation =
     \<lparr>items = replicate 65536 JAUSoundAnimationSound_init, lookup_of = [([], 0)],
      unk2 = PyInt 0, unk3 = PyInt 0\<rparr>"

definition fresh_animation :: JAUSoundAnimation where
  "fresh_animation =
     \<lparr>items = [JAUSoundAnimationSound_init,
               JAUSoundAnimationSound_init\<lparr>sound := PyStr ''a'', volume := PyInt 100\<rparr>],
      lookup_of = [([], 0), (''a'', 5)], unk2 = PyInt 1, unk3 = PyInt 2\<rparr>"

text \<open>The animation that the one-entry buffer holds, read in big-endian order.\<close>

definition one_entry_animation :: JAUSoundAnimation where
  "one_entry_animation =
     \<lparr>items = [\<lparr>sound = PyStr ''a'', start_frame = PyFloat 0x3FF0000000000000,
                unk8 = PyFloat 0, pitch = PyFloat 0x3FE0000000000000, flags = PyInt 7,
                volume = PyInt 1, pitch_factor = PyInt 2, unk16 = PyInt 3, pan = PyInt 4,
                volume_factor = PyInt 5, unk19 = PyInt 6\<rparr>],
      lookup_of = one_name_table, unk2 = PyInt 2, unk3 = PyInt 3\<rparr>"

text \<open>An animation of two entries whose second name no table entry has; the same entry
  alone behind a header attribute that does not fit a byte; and a buffer of 71 bytes whose
  header declares two entries: the one-entry buffer's entry, then 31 bytes.\<close>

definition absent_animation :: JAUSoundAnimation where
  "absent_animation =
     \<lparr>items = [JAUSoundAnimationSound_init, JAUSoundAnimationSound_init\<lparr>sound := PyStr ''zz''\<rparr>],
      lookup_of = [([], 0)], unk2 = PyInt 0, unk3 = PyInt 0\<rparr>"

definition absent_unfit_animation :: JAUSoundAnimation where
  "absent_unfit_animation =
     \<lparr>items = [JAUSoundAnimationSound_init\<lparr>sound := PyStr ''zz''\<rparr>],
      lookup_of = [([], 0)], unk2 = PyInt 256, unk3 = PyInt 0\<rparr>"


text \<open>What \<^verbatim>\<open>from_json\<close> makes of an entry that \<^verbatim>\<open>dump_json\<close> wrote: the name is
  replaced by the value of \<^verbatim>\<open>start_frame\<close>, and \<^verbatim>\<open>start_frame\<close> is the 0.0 of a new
  entry.\<close>

definition reloaded :: "JAUSoundAnimationSound \<Rightarrow> JAUSoundAnimationSound" where
  "reloaded s = s\<lparr>sound := start_frame s, start_frame := PyFloat 0\<rparr>"

text \<open>No float field of the bytes of a struct holds a signalling NaN.\<close>

fun floats_quiet :: "bool \<Rightarrow> fmt list \<Rightarrow> byte list \<Rightarrow> bool" where
  "floats_quiet be [] bs = True"
| "floats_quiet be (F # fs) bs =
     (\<not> snan (word_of_int (from_bytes be (take 4 bs))) \<and> floats_quiet be fs (drop 4 bs))"
| "floats_quiet be (c # fs) bs = floats_quiet be fs (drop (fmt_size c) bs)"

text \<open>The one-entry buffer with the signalling NaN \<^verbatim>\<open>7F800001\<close> as \<open>start_frame\<close>, and the
  animation that it holds, read in big-endian order: the NaN is quiet.\<close>

definition snan_buffer :: "byte list" where
  "snan_buffer =
     [0, 1, 2, 3, 0, 0, 0, 0,
      0, 0, 0, 5, 0x7F, 0x80, 0, 1, 0, 0, 0, 0, 0x3F, 0, 0, 0, 0, 0, 0, 7,
      1, 2, 3, 4, 5, 6, 0, 0, 0, 0, 0, 0]"

definition snan_animation :: JAUSoundAnimation where
  "snan_animation =
     \<lparr>items = [\<lparr>sound = PyStr ''a'', start_frame = PyFloat 0x7FF8000020000000,
                unk8 = PyFloat 0, pitch = PyFloat 0x3FE0000000000000, flags = PyInt 7,
                volume = PyInt 1, pitch_factor = PyInt 2, unk16 = PyInt 3, pan = PyInt 4,
                volume_factor = PyInt 5, unk19 = PyInt 6\<rparr>],
      lookup_of = one_name_table, unk2 = PyInt 2, unk3 = PyInt 3\<rparr>"

section \<open>Bytes and integers\<close>

lemma bind_Inl [simp]: "bind (Inl e) f = Inl e"
  by (simp add: bind_def)

lemma bind_Inr [simp]: "bind (Inr x) f = f x"
  by (simp add: bind_def)

lemma bind_eq_Inr: "(bind m f = Inr y) = (\<exists>x. m = Inr x \<and> f x = Inr y)"
  by (cases m) simp_all

lemma length_le_bytes [simp]: "length (le_bytes n v) = n"
  by (induction n arbitrary: v) simp_all

lemma length_to_bytes [simp]: "length (to_bytes be n v) = n"
  by (simp add: to_bytes_def)

lemma le_int_nonneg: "0 \<le> le_int bs"
  by (induction bs) simp_all

lemma le_int_less: "le_int bs < 256 ^ length bs"
proof (induction bs)
  case Nil
  show ?case by simp
next
  case (Cons b bs)
  have "uint b < 256" using uint_bounded [of b] by simp
  with Cons show ?case by simp
qed

lemma le_int_le_bytes: "le_int (le_bytes n v) = v mod 256 ^ n"
proof (induction n arbitrary: v)
  case 0
  show ?case by simp
next
  case (Suc n)
  have "uint (word_of_int v :: byte) = v mod 256"
    by (simp add: uint_word_of_int)
  moreover have "v mod (256 * 256 ^ n) = 256 * (v div 256 mod 256 ^ n) + v mod 256"
    by (rule zmod_zmult2_eq) simp
  ultimately show ?case using Suc by simp
qed

lemma le_bytes_le_int: "le_bytes (length bs) (le_int bs) = bs"
proof (induction bs)
  case Nil
  show ?case by simp
next
  case (Cons b bs)
  have b: "uint b < 256" "0 \<le> uint b" using uint_bounded [of b] by simp_all
  have "(uint b + 256 * le_int bs) mod 2 ^ 8 = uint b mod 2 ^ 8"
    by simp
  then have "(word_of_int (uint b + 256 * le_int bs) :: byte) = word_of_int (uint b)"
    unfolding word_of_int_eq_iff take_bit_eq_mod by simp
  moreover have "(uint b + 256 * le_int bs) div 256 = le_int bs"
    using b by simp
  ultimately show ?case using Cons by simp
qed

lemma from_bytes_nonneg: "0 \<le> from_bytes be bs"
  by (simp add: from_bytes_def le_int_nonneg)

lemma from_bytes_less: "from_bytes be bs < 256 ^ length bs"
  using le_int_less [of "rev bs"] le_int_less [of bs] by (simp add: from_bytes_def)

lemma from_bytes_to_bytes: "0 \<le> v \<Longrightarrow> v < 256 ^ n \<Longrightarrow> from_bytes be (to_bytes be n v) = v"
  by (simp add: from_bytes_def to_bytes_def le_int_le_bytes)

lemma to_bytes_from_bytes: "length bs = n \<Longrightarrow> to_bytes be n (from_bytes be bs) = bs"
  using le_bytes_le_int [of "rev bs"] le_bytes_le_int [of bs]
  by (auto simp: from_bytes_def to_bytes_def)

lemma word32_of_from_bytes:
  "length bs = 4 \<Longrightarrow> uint (word_of_int (from_bytes be bs) :: 32 word) = from_bytes be bs"
  using from_bytes_nonneg [of be bs] from_bytes_less [of be bs]
  by (simp add: uint_word_of_int)

lemma uint32_range: "0 \<le> uint (w :: 32 word) \<and> uint w < 256 ^ 4"
  using uint_bounded [of w] by simp

section \<open>The lookup table\<close>

lemma py_int_error: "py_int s = Inl e \<Longrightarrow> e = ValueError"
  by (auto simp: py_int_def Let_def split: prod.splits if_splits)

lemma add_fields_error: "add_fields d fs = Inl e \<Longrightarrow> e = ValueError"
  by (induction fs arbitrary: d) (auto split: list.splits sum.splits dest: py_int_error)

lemma add_fields_malformed:
  "(add_fields d fs = Inl ValueError) = (\<exists>f\<in>set fs. malformed f)"
proof (induction fs arbitrary: d)
  case Nil
  show ?case by simp
next
  case (Cons f fs)
  show ?case
  proof (cases "malformed f")
    case True
    then have "add_fields d (f # fs) = Inl ValueError"
      by (auto simp: malformed_def Let_def split: list.splits sum.splits dest: py_int_error)
    with True show ?thesis by simp
  next
    case False
    then obtain n i v where "split_comma (strip_crlf f) = [n, i]" "py_int i = Inr v"
      by (auto simp: malformed_def Let_def length_Suc_conv numeral_2_eq_2 dest: py_int_error
          intro: sum.exhaust[of "py_int _"]) (metis py_int_error sum.exhaust)
    then have "add_fields d (f # fs) = add_fields (dict_set n v d) fs" by simp
    with False Cons.IH show ?thesis by simp
  qed
qed

lemma abc_init: "JAUSoundIdTable_init abc_source = Inr abc_table"
  by (simp add: abc_source_def abc_table_def JAUSoundIdTable_init_def readlines_def LF_def CR_def
      strip_crlf_def split_comma_def py_int_def int_max_str_digits_def strip_sign_def py_isspace_def py_isdigit_def)

text \<open>
  C3, as the code has it. The table built from the lines \<^verbatim>\<open>a,5\<close>, \<^verbatim>\<open>b,5\<close>, \<^verbatim>\<open>a,9\<close>
  is the dict \<^verbatim>\<open>{a: 9, b: 5}\<close>: the third line replaces the ID of \<^verbatim>\<open>a\<close> where
  \<^verbatim>\<open>a\<close> stands. So \<^verbatim>\<open>find_id("a")\<close> is 9, and \<^verbatim>\<open>find_name(5)\<close>, the first name of
  the dict whose ID is now 5, is \<^verbatim>\<open>b\<close>.
\<close>

theorem C3_lookup_after_overwrite:
  "JAUSoundIdTable_init abc_source = Inr abc_table
   \<and> find_id abc_table (PyStr ''a'') = Inr 9
   \<and> find_name abc_table 5 = Inr ''b''"
  by (simp add: abc_init) (simp add: abc_table_def find_id_def)

theorem C3_lookup_after_overwrite_witness: "find_name abc_table 5 = Inr ''b''"
  using C3_lookup_after_overwrite by simp

text \<open>C3 as stated fails: on that table \<^verbatim>\<open>find_name(5)\<close> is not \<^verbatim>\<open>a\<close>.\<close>

theorem C3_counterexample:
  "JAUSoundIdTable_init abc_source = Inr abc_table \<and> find_name abc_table 5 \<noteq> Inr ''a''"
  by (simp add: abc_init) (simp add: abc_table_def)

lemma strip_sign_zeros:
  "0 < n \<Longrightarrow> strip_sign (replicate n (CHR ''0'')) = (False, replicate n (CHR ''0''))"
  by (cases n) (simp_all add: strip_sign_def)

lemma py_int_digit_limit:
  assumes "int_max_str_digits < n"
  shows "py_int (replicate n (CHR ''0'')) = Inl ValueError"
proof -
  from assms have "0 < n" by simp
  then have s: "strip_sign (replicate n (CHR ''0'')) = (False, replicate n (CHR ''0''))"
    by (rule strip_sign_zeros)
  have d: "py_isdigit (CHR ''0'')" "\<not> py_isspace (CHR ''0'')"
    by (simp_all add: py_isdigit_def py_isspace_def)
  from assms show ?thesis
    by (simp add: py_int_def Let_def s d)
qed

lemma split_from_zeros:
  "split_from cur (replicate n (CHR ''0'')) = [cur @ replicate n (CHR ''0'')]"
  by (induction n arbitrary: cur) simp_all

lemma strip_crlf_zeros:
  "strip_crlf (''a,'' @ replicate (Suc n) (CHR ''0'')) = ''a,'' @ replicate (Suc n) (CHR ''0'')"
  by (simp add: strip_crlf_def CR_def LF_def del: replicate_Suc)

text \<open>A line whose ID field has more than 4300 digits is one on which \<^verbatim>\<open>__init__\<close> raises.\<close>

lemma malformed_long_literal:
  assumes "int_max_str_digits \<le> n"
  shows "malformed (''a,'' @ replicate (Suc n) (CHR ''0''))"
proof -
  have "split_comma (''a,'' @ replicate (Suc n) (CHR ''0''))
      = [''a'', replicate (Suc n) (CHR ''0'')]"
    using split_from_zeros [of "[]" "Suc n"] by (simp add: split_comma_def del: replicate_Suc)
  moreover from assms have "py_int (replicate (Suc n) (CHR ''0'')) = Inl ValueError"
    by (intro py_int_digit_limit) simp
  ultimately show ?thesis
    unfolding malformed_def strip_crlf_zeros by (simp add: Let_def del: replicate_Suc)
qed

text \<open>
  C9, as the code has it. Construction raises \<open>FileNotFoundError\<close> when the path does not
  exist, and what \<^verbatim>\<open>open\<close> raises when the path exists and cannot be opened. On a file
  it raises \<open>ValueError\<close> as soon as some line has not exactly two comma-separated fields
  or has an ID field that \<^verbatim>\<open>int\<close> rejects, wherever the line stands; with no such line it
  returns a table.
\<close>

theorem C9_init_failures:
  "JAUSoundIdTable_init Missing = Inl FileNotFoundError
   \<and> JAUSoundIdTable_init Unreadable = Inl OSError
   \<and> ((\<exists>f\<in>set (readlines text). malformed f)
        \<longrightarrow> JAUSoundIdTable_init (FileText text) = Inl ValueError)
   \<and> ((\<forall>f\<in>set (readlines text). \<not> malformed f)
        \<longrightarrow> (\<exists>d. JAUSoundIdTable_init (FileText text) = Inr d))"
proof -
  have "(\<forall>f\<in>set (readlines text). \<not> malformed f)
          \<longrightarrow> (\<exists>d. add_fields [] (readlines text) = Inr d)"
    using add_fields_malformed [of "[]" "readlines text"]
      add_fields_error [of "[]" "readlines text"]
    by (cases "add_fields [] (readlines text)") auto
  then show ?thesis
    by (simp add: JAUSoundIdTable_init_def add_fields_malformed)
qed

theorem C9_init_failures_witness:
  "malformed ''b,5,7''
   \<and> JAUSoundIdTable_init (FileText (''a,5'' @ [LF] @ ''b,5,7'')) = Inl ValueError
   \<and> readlines ''a,5'' = [''a,5''] \<and> \<not> malformed ''a,5''
   \<and> (\<exists>d. JAUSoundIdTable_init (FileText ''a,5'') = Inr d)"
proof -
  have 1: "malformed ''b,5,7''"
    by (simp add: malformed_def strip_crlf_def split_comma_def LF_def CR_def)
  have 2: "readlines (''a,5'' @ [LF] @ ''b,5,7'') = [''a,5'' @ [LF], ''b,5,7'']"
    by (simp add: readlines_def LF_def CR_def)
  have 3: "readlines ''a,5'' = [''a,5'']"
    by (simp add: readlines_def LF_def CR_def)
  have 4: "\<not> malformed ''a,5''"
    by (simp add: malformed_def strip_crlf_def split_comma_def LF_def CR_def
        py_int_def int_max_str_digits_def strip_sign_def py_isspace_def py_isdigit_def)
  from 1 2 3 4 C9_init_failures [of "''a,5'' @ [LF] @ ''b,5,7''"] C9_init_failures [of "''a,5''"]
  show ?thesis by simp
qed

text \<open>C9 as stated fails: a negative ID field is accepted.\<close>

theorem C9_counterexample:
  "JAUSoundIdTable_init (FileText ''a,-5'') = Inr [(''a'', - 5)]"
  by (simp add: JAUSoundIdTable_init_def readlines_def LF_def CR_def
      strip_crlf_def split_comma_def py_int_def int_max_str_digits_def strip_sign_def py_isspace_def py_isdigit_def)

section \<open>Packing and unpacking\<close>

lemma calcsize_Cons [simp]: "calcsize (c # fs) = fmt_size c + calcsize fs"
  by (simp add: calcsize_def)

lemma calcsize_Nil [simp]: "calcsize [] = 0"
  by (simp add: calcsize_def)

lemma pack_uint_length: "pack_uint be n v = Inr bs \<Longrightarrow> length bs = n"
  by (auto simp: pack_uint_def split: pyval.splits if_splits)

lemma pack_double_length: "pack_double fo be x = Inr bs \<Longrightarrow> length bs = 4"
  by (auto simp: pack_double_def split: option.splits)

lemma pack_float_length: "pack_float fo be v = Inr bs \<Longrightarrow> length bs = 4"
  by (auto simp: pack_float_def pack_int_as_float_def
      split: pyval.splits option.splits sum.splits dest: pack_double_length)

lemma struct_pack_length:
  "struct_pack fo be fs vs = Inr bs \<Longrightarrow> length bs = calcsize fs"
proof (induction fo be fs vs arbitrary: bs rule: struct_pack.induct [case_names nil pad float half word byte])
  case (nil fo be)
  then show ?case by simp
next
  case (pad fo be fs vs)
  then show ?case by (auto simp: bind_eq_Inr)
next
  case (float fo be fs v vs)
  then show ?case by (auto simp: bind_eq_Inr dest: pack_float_length)
next
  case (half fo be fs v vs)
  then show ?case by (auto simp: bind_eq_Inr dest: pack_uint_length)
next
  case (word fo be fs v vs)
  then show ?case by (auto simp: bind_eq_Inr dest: pack_uint_length)
next
  case (byte fo be fs v vs)
  then show ?case by (auto simp: bind_eq_Inr dest: pack_uint_length)
qed simp_all

lemma pack_uint_from_bytes:
  "length bs = n \<Longrightarrow> pack_uint be n (PyInt (from_bytes be bs)) = Inr bs"
  using from_bytes_nonneg [of be bs] from_bytes_less [of be bs]
  by (simp add: pack_uint_def to_bytes_from_bytes)

lemma pack_float_exact:
  assumes "length bs = 4" "f32_exact fo (word_of_int (from_bytes be bs))"
  shows "pack_float fo be (PyFloat (f32_unpack fo (word_of_int (from_bytes be bs)))) = Inr bs"
  using assms by (simp add: pack_float_def pack_double_def f32_exact_def
      word32_of_from_bytes to_bytes_from_bytes)

lemma struct_pack_unpack:
  "calcsize fs \<le> length bs \<Longrightarrow> floats_exact fo be fs bs \<Longrightarrow>
   struct_pack fo be fs (struct_unpack fo be fs bs) = Inr (zero_pad fs bs)"
proof (induction fs arbitrary: bs)
  case Nil
  show ?case by simp
next
  case (Cons c fs)
  then have rest: "struct_pack fo be fs (struct_unpack fo be fs (drop (fmt_size c) bs))
      = Inr (zero_pad fs (drop (fmt_size c) bs))"
    by (cases c) simp_all
  have len: "length (take (fmt_size c) bs) = fmt_size c"
    using Cons.prems(1) by simp
  show ?case
  proof (cases c)
    case X
    with rest show ?thesis by simp
  next
    case F
    with Cons.prems len have "pack_float fo be
        (PyFloat (f32_unpack fo (word_of_int (from_bytes be (take 4 bs))))) = Inr (take 4 bs)"
      by (intro pack_float_exact) simp_all
    with F rest show ?thesis by simp
  next
    case H
    with rest pack_uint_from_bytes [OF len, of be] show ?thesis by simp
  next
    case I
    with rest pack_uint_from_bytes [OF len, of be] show ?thesis by simp
  next
    case B
    with rest pack_uint_from_bytes [OF len, of be] show ?thesis by simp
  qed
qed

lemma pack_uint_fits:
  "uint_fits n v \<Longrightarrow> \<exists>b. pack_uint be n v = Inr b \<and> length b = n \<and> PyInt (from_bytes be b) = v"
  by (auto simp: uint_fits_def pack_uint_def from_bytes_to_bytes split: pyval.splits)

lemma pack_float_fixed:
  "f32_fixed fo v \<Longrightarrow>
   \<exists>b. pack_float fo be v = Inr b \<and> length b = 4
       \<and> PyFloat (f32_unpack fo (word_of_int (from_bytes be b))) = v"
  using uint32_range
  by (auto simp: f32_fixed_def pack_float_def pack_double_def from_bytes_to_bytes
      split: pyval.splits option.splits)

lemma struct_unpack_pack:
  "fits fo fs vs \<Longrightarrow>
   \<exists>bs. struct_pack fo be fs vs = Inr bs \<and> struct_unpack fo be fs bs = vs"
proof (induction fo fs vs rule: fits.induct [case_names nil pad float half word byte])
  case (nil fo)
  show ?case by simp
next
  case (pad fo fs vs)
  then show ?case by auto
next
  case (float fo fs v vs)
  then obtain bs where bs: "struct_pack fo be fs vs = Inr bs" "struct_unpack fo be fs bs = vs"
    by auto
  from float obtain b where "pack_float fo be v = Inr b" "length b = 4"
    "PyFloat (f32_unpack fo (word_of_int (from_bytes be b))) = v"
    using pack_float_fixed [of fo v be] by auto
  with bs show ?case by simp
next
  case (half fo fs v vs)
  then obtain bs where bs: "struct_pack fo be fs vs = Inr bs" "struct_unpack fo be fs bs = vs"
    by auto
  from half obtain b where "pack_uint be 2 v = Inr b" "length b = 2" "PyInt (from_bytes be b) = v"
    using pack_uint_fits [of 2 v be] by auto
  with bs show ?case by simp
next
  case (word fo fs v vs)
  then obtain bs where bs: "struct_pack fo be fs vs = Inr bs" "struct_unpack fo be fs bs = vs"
    by auto
  from word obtain b where "pack_uint be 4 v = Inr b" "length b = 4" "PyInt (from_bytes be b) = v"
    using pack_uint_fits [of 4 v be] by auto
  with bs show ?case by simp
next
  case (byte fo fs v vs)
  then obtain bs where bs: "struct_pack fo be fs vs = Inr bs" "struct_unpack fo be fs bs = vs"
    by auto
  from byte obtain b where "pack_uint be 1 v = Inr b" "length b = 1" "PyInt (from_bytes be b) = v"
    using pack_uint_fits [of 1 v be] by auto
  with bs show ?case by simp
qed simp_all

section \<open>The loops of the encoder and the decoder\<close>

lemma bind_assoc: "bind (bind m f) g = bind m (\<lambda>x. bind (f x) g)"
  by (cases m) simp_all

lemma bind_Inr_right [simp]: "bind m Inr = m"
  by (cases m) simp_all

lemma struct_offset_nat: "p + sz \<le> len \<Longrightarrow> struct_offset len (int p) sz = Inr p"
  by (simp add: struct_offset_def Let_def)

lemma struct_offset_zero: "sz \<le> len \<Longrightarrow> struct_offset len 0 sz = Inr 0"
  by (simp add: struct_offset_def Let_def)

lemma struct_offset_short:
  "0 \<le> off \<Longrightarrow> len < nat off + sz \<Longrightarrow> struct_offset len off sz = Inl StructError"
  by (auto simp: struct_offset_def Let_def)

lemma calcsize_sound [simp]: "calcsize sound_STRUCT = 32"
  by (simp add: sound_STRUCT_def)

lemma calcsize_anm [simp]: "calcsize anm_STRUCT = 8"
  by (simp add: anm_STRUCT_def)

lemma sound_bytes_length: "sound_bytes fo be lk s = Inr b \<Longrightarrow> length b = 32"
  by (auto simp: sound_bytes_def bind_eq_Inr dest: struct_pack_length)

lemma sounds_bytes_length:
  "sounds_bytes fo be lk ss = Inr body \<Longrightarrow> length body = 32 * length ss"
  by (induction ss arbitrary: body) (auto simp: bind_eq_Inr dest: sound_bytes_length)

lemma sound_pack_at:
  assumes "length mid = 32"
  shows "JAUSoundAnimationSound_pack fo s (pre @ mid @ post) (int (length pre)) be lk
         = bind (sound_bytes fo be lk s) (\<lambda>b. Inr (pre @ b @ post))"
proof -
  have "struct_offset (length (pre @ mid @ post)) (int (length pre)) 32 = Inr (length pre)"
    using assms by (intro struct_offset_nat) simp
  then show ?thesis
    using assms
    by (simp add: JAUSoundAnimationSound_pack_def sound_bytes_def pack_into_def bind_assoc)
qed

lemma pack_sounds_concat:
  "length zeros = 32 * length ss \<Longrightarrow>
   pack_sounds fo (pre @ zeros) (int (length pre)) be lk ss
   = bind (sounds_bytes fo be lk ss) (\<lambda>body. Inr (pre @ body))"
proof (induction ss arbitrary: pre zeros)
  case Nil
  then show ?case by simp
next
  case (Cons s ss)
  define mid where "mid = take 32 zeros"
  define post where "post = drop 32 zeros"
  have z: "zeros = mid @ post" "length mid = 32" "length post = 32 * length ss"
    using Cons.prems by (simp_all add: mid_def post_def)
  show ?case
  proof (cases "sound_bytes fo be lk s")
    case (Inl e)
    then show ?thesis using z by (simp add: sound_pack_at)
  next
    case (Inr b)
    then have lb: "length b = 32" by (rule sound_bytes_length)
    have "pack_sounds fo ((pre @ b) @ post) (int (length (pre @ b))) be lk ss
          = bind (sounds_bytes fo be lk ss) (\<lambda>body. Inr ((pre @ b) @ body))"
      using z by (intro Cons.IH) simp
    moreover have "int (length pre) + 32 = int (length (pre @ b))" using lb by simp
    ultimately show ?thesis
      using Inr z by (simp add: sound_pack_at bind_assoc del: length_append)
  qed
qed

lemma makebin_concat:
  "makebin fo self be
   = bind (struct_pack fo be anm_STRUCT [PyInt (int (length (items self))), unk2 self, unk3 self])
       (\<lambda>header. bind (sounds_bytes fo be (lookup_of self) (items self))
          (\<lambda>body. Inr (header @ body)))"
proof (cases "struct_pack fo be anm_STRUCT
    [PyInt (int (length (items self))), unk2 self, unk3 self]")
  case (Inl e)
  then show ?thesis
    by (simp add: makebin_def Let_def pack_into_def struct_offset_zero)
next
  case (Inr header)
  then have lh: "length header = 8" by (auto dest: struct_pack_length)
  have "pack_sounds fo (header @ replicate (length (items self) * 32) 0) (int (length header))
          be (lookup_of self) (items self)
        = bind (sounds_bytes fo be (lookup_of self) (items self)) (\<lambda>body. Inr (header @ body))"
    by (intro pack_sounds_concat) simp
  moreover have "drop 8 (replicate (8 + length (items self) * 32) (0 :: byte))
      = replicate (length (items self) * 32) 0"
    by simp
  ultimately show ?thesis
    using Inr lh by (simp add: makebin_def Let_def pack_into_def struct_offset_zero)
qed

lemma unpack_from_at:
  assumes "0 \<le> off" "0 < calcsize fs"
  shows "unpack_from fo be fs data off
         = unpack_from fo be fs (take (calcsize fs) (drop (nat off) data)) 0"
proof (cases "nat off + calcsize fs \<le> length data")
  case True
  then have "struct_offset (length data) off (calcsize fs) = Inr (nat off)"
    using assms(1) struct_offset_nat [of "nat off" "calcsize fs" "length data"] by simp
  moreover have "struct_offset (length (take (calcsize fs) (drop (nat off) data))) 0 (calcsize fs)
      = Inr 0"
    using True by (intro struct_offset_zero) simp
  ultimately show ?thesis by (simp add: unpack_from_def)
next
  case False
  then have "struct_offset (length data) off (calcsize fs) = Inl StructError"
    using assms(1) by (intro struct_offset_short) simp_all
  moreover have "length (take (calcsize fs) (drop (nat off) data)) < calcsize fs"
    using False assms(2) by simp
  then have "struct_offset (length (take (calcsize fs) (drop (nat off) data))) 0 (calcsize fs)
      = Inl StructError"
    by (intro struct_offset_short) simp_all
  ultimately show ?thesis by (simp add: unpack_from_def)
qed

lemma sound_unpack_at:
  "0 \<le> off \<Longrightarrow>
   JAUSoundAnimationSound_unpack fo s data off be lk
   = JAUSoundAnimationSound_unpack fo s (take 32 (drop (nat off) data)) 0 be lk"
  using unpack_from_at [where off = off and fs = sound_STRUCT and fo = fo and be = be and data = data]
  by (simp add: JAUSoundAnimationSound_unpack_def)

lemma unpack_sounds_chunks:
  "0 \<le> off \<Longrightarrow>
   unpack_sounds fo self data off be n
   = bind (decode_chunks fo be (lookup_of self) n (drop (nat off) data))
       (\<lambda>ss. Inr (self\<lparr>items := items self @ ss\<rparr>))"
proof (induction n arbitrary: self off)
  case 0
  show ?case by simp
next
  case (Suc n)
  have d: "drop (nat (off + 32)) data = drop 32 (drop (nat off) data)"
    using Suc.prems by (simp add: nat_add_distrib add.commute)
  show ?case
  proof (cases "sound_of_chunk fo be (lookup_of self) (take 32 (drop (nat off) data))")
    case (Inl e)
    then show ?thesis
      using Suc.prems sound_unpack_at [of off fo JAUSoundAnimationSound_init data be "lookup_of self"]
      by (simp add: sound_of_chunk_def)
  next
    case (Inr s)
    have "unpack_sounds fo (self\<lparr>items := items self @ [s]\<rparr>) data (off + 32) be n
          = bind (decode_chunks fo be (lookup_of self) n (drop (nat (off + 32)) data))
              (\<lambda>ss. Inr (self\<lparr>items := items self @ s # ss\<rparr>))"
      using Suc.prems Suc.IH [of "off + 32" "self\<lparr>items := items self @ [s]\<rparr>"] by simp
    then show ?thesis
      using Inr Suc.prems d
        sound_unpack_at [of off fo JAUSoundAnimationSound_init data be "lookup_of self"]
      by (simp add: sound_of_chunk_def bind_assoc)
  qed
qed

lemma find_name_mem: "find_name lk i = Inr n \<Longrightarrow> (n, i) \<in> set lk"
  by (induction lk i rule: find_name.induct) (auto split: if_splits)

lemma find_name_error: "find_name lk i = Inl e \<Longrightarrow> e = KeyError"
  by (induction lk i rule: find_name.induct) (auto split: if_splits)

lemma find_id_find_name:
  "distinct (map fst lk) \<Longrightarrow> find_name lk i = Inr n \<Longrightarrow> find_id lk (PyStr n) = Inr i"
proof -
  assume "distinct (map fst lk)" "find_name lk i = Inr n"
  then have "map_of lk n = Some i"
    by (intro map_of_is_SomeI find_name_mem)
  then show ?thesis by (simp add: find_id_def)
qed

lemma struct_unpack_sound:
  "struct_unpack fo be sound_STRUCT bs =
     [PyInt (from_bytes be (take 4 bs)),
      PyFloat (f32_unpack fo (word_of_int (from_bytes be (take 4 (drop 4 bs))))),
      PyFloat (f32_unpack fo (word_of_int (from_bytes be (take 4 (drop 8 bs))))),
      PyFloat (f32_unpack fo (word_of_int (from_bytes be (take 4 (drop 12 bs))))),
      PyInt (from_bytes be (take 4 (drop 16 bs))),
      PyInt (from_bytes be (take 1 (drop 20 bs))),
      PyInt (from_bytes be (take 1 (drop 21 bs))),
      PyInt (from_bytes be (take 1 (drop 22 bs))),
      PyInt (from_bytes be (take 1 (drop 23 bs))),
      PyInt (from_bytes be (take 1 (drop 24 bs))),
      PyInt (from_bytes be (take 1 (drop 25 bs)))]"
  by (simp add: sound_STRUCT_def)

lemma struct_unpack_anm:
  "struct_unpack fo be anm_STRUCT bs =
     [PyInt (from_bytes be (take 2 bs)),
      PyInt (from_bytes be (take 1 (drop 2 bs))),
      PyInt (from_bytes be (take 1 (drop 3 bs)))]"
  by (simp add: anm_STRUCT_def numeral_3_eq_3)

text \<open>What \<^verbatim>\<open>_unpack_\<close> makes of a full chunk: the ID is looked up, the other ten values
  are stored as they were read.\<close>

lemma sound_of_chunk_full:
  assumes "32 \<le> length chunk"
  shows "sound_of_chunk fo be lk chunk =
     (case struct_unpack fo be sound_STRUCT (take 32 chunk) of
        [PyInt i, v1, v2, v3, v4, v5, v6, v7, v8, v9, v10] \<Rightarrow>
          bind (find_name lk i) (\<lambda>name.
            Inr \<lparr>sound = PyStr name, start_frame = v1, unk8 = v2, pitch = v3, flags = v4,
                 volume = v5, pitch_factor = v6, unk16 = v7, pan = v8, volume_factor = v9,
                 unk19 = v10\<rparr>))"
  using assms
  by (simp add: sound_of_chunk_def JAUSoundAnimationSound_unpack_def unpack_from_def
      struct_offset_zero struct_unpack_sound JAUSoundAnimationSound_init_def)


lemma sound_bytes_of_chunk:
  assumes len: "length chunk = 32"
    and dec: "sound_of_chunk fo be lk chunk = Inr s"
    and lk: "distinct (map fst lk)"
    and ex: "floats_exact fo be sound_STRUCT chunk"
  shows "sound_bytes fo be lk s = Inr (zero_pad sound_STRUCT chunk)"
proof -
  obtain i v1 v2 v3 v4 v5 v6 v7 v8 v9 v10 where
    t: "struct_unpack fo be sound_STRUCT chunk = [PyInt i, v1, v2, v3, v4, v5, v6, v7, v8, v9, v10]"
    by (simp add: struct_unpack_sound)
  with len dec obtain name where name: "find_name lk i = Inr name"
    and s: "s = \<lparr>sound = PyStr name, start_frame = v1, unk8 = v2, pitch = v3, flags = v4,
                 volume = v5, pitch_factor = v6, unk16 = v7, pan = v8, volume_factor = v9,
                 unk19 = v10\<rparr>"
    by (auto simp: sound_of_chunk_full bind_eq_Inr)
  from lk name have "find_id lk (PyStr name) = Inr i" by (rule find_id_find_name)
  moreover have "struct_pack fo be sound_STRUCT (struct_unpack fo be sound_STRUCT chunk)
      = Inr (zero_pad sound_STRUCT chunk)"
    using len ex by (intro struct_pack_unpack) simp_all
  ultimately show ?thesis
    using s t by (simp add: sound_bytes_def)
qed

lemma uint_fits_from_bytes: "length bs = n \<Longrightarrow> uint_fits n (PyInt (from_bytes be bs))"
  using from_bytes_nonneg [of be bs] from_bytes_less [of be bs] by (simp add: uint_fits_def)

lemma sound_of_chunk_bytes:
  assumes len: "32 \<le> length chunk"
    and dec: "sound_of_chunk fo be' lk chunk = Inr s"
    and lk: "distinct (map fst lk)"
    and fx: "f32_fixed fo (start_frame s)" "f32_fixed fo (unk8 s)" "f32_fixed fo (pitch s)"
  shows "\<exists>b. sound_bytes fo be lk s = Inr b \<and> length b = 32 \<and> sound_of_chunk fo be lk b = Inr s"
proof -
  obtain i v1 v2 v3 v4 v5 v6 v7 v8 v9 v10 where
    t: "struct_unpack fo be' sound_STRUCT (take 32 chunk)
          = [PyInt i, v1, v2, v3, v4, v5, v6, v7, v8, v9, v10]"
    by (simp add: struct_unpack_sound)
  with len dec obtain name where name: "find_name lk i = Inr name"
    and s: "s = \<lparr>sound = PyStr name, start_frame = v1, unk8 = v2, pitch = v3, flags = v4,
                 volume = v5, pitch_factor = v6, unk16 = v7, pan = v8, volume_factor = v9,
                 unk19 = v10\<rparr>"
    by (auto simp: sound_of_chunk_full bind_eq_Inr)
  from lk name have id: "find_id lk (PyStr name) = Inr i" by (rule find_id_find_name)
  have "fits fo sound_STRUCT [PyInt i, v1, v2, v3, v4, v5, v6, v7, v8, v9, v10]"
    using t fx s len
    by (auto simp: struct_unpack_sound sound_STRUCT_def intro!: uint_fits_from_bytes)
  then obtain b where b: "struct_pack fo be sound_STRUCT
        [PyInt i, v1, v2, v3, v4, v5, v6, v7, v8, v9, v10] = Inr b"
    "struct_unpack fo be sound_STRUCT b = [PyInt i, v1, v2, v3, v4, v5, v6, v7, v8, v9, v10]"
    using struct_unpack_pack by blast
  then have lb: "length b = 32" by (auto dest: struct_pack_length)
  then have "sound_of_chunk fo be lk b = Inr s"
    using b(2) name s by (simp add: sound_of_chunk_full)
  with id b(1) s lb show ?thesis by (simp add: sound_bytes_def)
qed

section \<open>The conversions of the IEEE instance\<close>

lemma div_mod_decomp:
  fixes h r c :: int
  assumes "0 \<le> r" "r < c"
  shows "(h * c + r) div c = h" "(h * c + r) mod c = r"
  using assms by simp_all

lemma uint_word32: "0 \<le> w \<Longrightarrow> w < 2 ^ 32 \<Longrightarrow> uint (word_of_int w :: 32 word) = w"
  by (simp add: uint_word_of_int take_bit_eq_mod)

lemma uint_word64: "0 \<le> w \<Longrightarrow> w < 2 ^ 64 \<Longrightarrow> uint (word_of_int w :: 64 word) = w"
  by (simp add: uint_word_of_int take_bit_eq_mod)

lemma f32_uint:
  assumes "s = 0 \<or> s = 1" "0 \<le> e" "e < 256" "0 \<le> m" "m < 2 ^ 23"
  shows "uint (f32_of s e m) = s * 2 ^ 31 + e * 2 ^ 23 + m"
proof -
  have "0 \<le> s * 2 ^ 31 + e * 2 ^ 23 + m" "s * 2 ^ 31 + e * 2 ^ 23 + m < 2 ^ 32"
    using assms by auto
  then show ?thesis
    unfolding f32_of_def by (rule uint_word32)
qed

lemma f32_fields:
  assumes "s = 0 \<or> s = 1" "0 \<le> e" "e < 256" "0 \<le> m" "m < 2 ^ 23"
  shows "uint (f32_of s e m) div 2 ^ 31 = s"
    and "(uint (f32_of s e m) div 2 ^ 23) mod 2 ^ 8 = e"
    and "uint (f32_of s e m) mod 2 ^ 23 = m"
proof -
  have u: "uint (f32_of s e m) = s * 2 ^ 31 + e * 2 ^ 23 + m"
    using assms by (rule f32_uint)
  have a: "s * 2 ^ 31 + e * 2 ^ 23 + m = s * 2 ^ 31 + (e * 2 ^ 23 + m)"
    and b: "s * 2 ^ 31 + e * 2 ^ 23 + m = (s * 2 ^ 8 + e) * 2 ^ 23 + m"
    by simp_all
  have r: "0 \<le> e * 2 ^ 23 + m" "e * 2 ^ 23 + m < 2 ^ 31"
    using assms by auto
  show "uint (f32_of s e m) div 2 ^ 31 = s"
    unfolding u a using r by (rule div_mod_decomp)
  have d: "(s * 2 ^ 31 + e * 2 ^ 23 + m) div 2 ^ 23 = s * 2 ^ 8 + e"
    unfolding b using assms(4,5) by (rule div_mod_decomp)
  have "e < 2 ^ 8" using assms(3) by simp
  with assms(2) show "(uint (f32_of s e m) div 2 ^ 23) mod 2 ^ 8 = e"
    unfolding u d by (rule div_mod_decomp)
  show "uint (f32_of s e m) mod 2 ^ 23 = m"
    unfolding u b using assms(4,5) by (rule div_mod_decomp)
qed

lemma f64_uint:
  assumes "s = 0 \<or> s = 1" "0 \<le> e" "e < 2048" "0 \<le> m" "m < 2 ^ 52"
  shows "uint (f64_of s e m) = s * 2 ^ 63 + e * 2 ^ 52 + m"
proof -
  have "0 \<le> s * 2 ^ 63 + e * 2 ^ 52 + m" "s * 2 ^ 63 + e * 2 ^ 52 + m < 2 ^ 64"
    using assms by auto
  then show ?thesis
    unfolding f64_of_def by (rule uint_word64)
qed

lemma f64_fields:
  assumes "s = 0 \<or> s = 1" "0 \<le> e" "e < 2048" "0 \<le> m" "m < 2 ^ 52"
  shows "uint (f64_of s e m) div 2 ^ 63 = s"
    and "(uint (f64_of s e m) div 2 ^ 52) mod 2 ^ 11 = e"
    and "uint (f64_of s e m) mod 2 ^ 52 = m"
proof -
  have u: "uint (f64_of s e m) = s * 2 ^ 63 + e * 2 ^ 52 + m"
    using assms by (rule f64_uint)
  have a: "s * 2 ^ 63 + e * 2 ^ 52 + m = s * 2 ^ 63 + (e * 2 ^ 52 + m)"
    and b: "s * 2 ^ 63 + e * 2 ^ 52 + m = (s * 2 ^ 11 + e) * 2 ^ 52 + m"
    by simp_all
  have r: "0 \<le> e * 2 ^ 52 + m" "e * 2 ^ 52 + m < 2 ^ 63"
    using assms by auto
  show "uint (f64_of s e m) div 2 ^ 63 = s"
    unfolding u a using r by (rule div_mod_decomp)
  have d: "(s * 2 ^ 63 + e * 2 ^ 52 + m) div 2 ^ 52 = s * 2 ^ 11 + e"
    unfolding b using assms(4,5) by (rule div_mod_decomp)
  have "e < 2 ^ 11" using assms(3) by simp
  with assms(2) show "(uint (f64_of s e m) div 2 ^ 52) mod 2 ^ 11 = e"
    unfolding u d by (rule div_mod_decomp)
  show "uint (f64_of s e m) mod 2 ^ 52 = m"
    unfolding u b using assms(4,5) by (rule div_mod_decomp)
qed

lemma f32_cases:
  obtains s e m where "x = f32_of s e m" "s = 0 \<or> s = 1" "0 \<le> e" "e < 256" "0 \<le> m"
    "m < 2 ^ 23"
proof -
  define w where "w = uint x"
  define s where "s = w div 2 ^ 31"
  define e where "e = (w div 2 ^ 23) mod 2 ^ 8"
  define m where "m = w mod 2 ^ 23"
  have w: "0 \<le> w" "w < 2 ^ 32"
    using uint_lt2p [of x] by (simp_all add: w_def)
  have "w div 2 ^ 23 div 2 ^ 8 = s"
    unfolding s_def using zdiv_zmult2_eq [of "2 ^ 8" w "2 ^ 23"] by simp
  then have "w div 2 ^ 23 = s * 2 ^ 8 + e"
    unfolding e_def using div_mult_mod_eq [of "w div 2 ^ 23" "2 ^ 8"] by simp
  then have eq: "w = s * 2 ^ 31 + e * 2 ^ 23 + m"
    unfolding m_def using div_mult_mod_eq [of w "2 ^ 23"] by simp
  have "x = word_of_int w" by (simp add: w_def)
  then have "x = f32_of s e m" by (simp add: f32_of_def eq)
  moreover have "s = 0 \<or> s = 1" using w by (auto simp: s_def)
  moreover have "0 \<le> e" "e < 256" "0 \<le> m" "m < 2 ^ 23"
    by (simp_all add: e_def m_def)
  ultimately show ?thesis by (rule that)
qed

lemma bit_length_pos: "0 < n \<Longrightarrow> bit_length n = Suc (bit_length (n div 2))"
  by (subst bit_length.simps) simp

lemma bit_length_one: "bit_length 1 = 1"
  by (simp add: bit_length.simps [of 1] bit_length.simps [of 0])

lemma bit_length_unique: "2 ^ k \<le> n \<Longrightarrow> n < 2 ^ Suc k \<Longrightarrow> bit_length n = Suc k"
proof (induction k arbitrary: n)
  case 0
  then have "n = 1" by simp
  then show ?case by (simp add: bit_length_one)
next
  case (Suc k)
  from Suc.prems have "2 ^ k \<le> n div 2" "n div 2 < 2 ^ Suc k" by simp_all
  then have "bit_length (n div 2) = Suc k" by (rule Suc.IH)
  moreover have "(0 :: int) < 2 ^ Suc k" by simp
  with Suc.prems(1) have "0 < n" by linarith
  ultimately show ?case by (simp add: bit_length_pos)
qed

lemma bit_length_bounds: "0 < n \<Longrightarrow> 2 ^ (bit_length n - 1) \<le> n \<and> n < 2 ^ bit_length n"
proof (induction n rule: bit_length.induct [case_names step])
  case (step n)
  show ?case
  proof (cases "n = 1")
    case True
    then show ?thesis by (simp add: bit_length_one)
  next
    case False
    with step.prems have h: "0 < n div 2" by simp
    with step have IH: "2 ^ (bit_length (n div 2) - 1) \<le> n div 2"
      "n div 2 < 2 ^ bit_length (n div 2)"
      by simp_all
    from h obtain p where p: "bit_length (n div 2) = Suc p"
      by (auto simp: bit_length_pos)
    from step.prems have bl: "bit_length n = Suc (Suc p)"
      by (simp add: bit_length_pos p)
    from IH show ?thesis
      unfolding bl p by simp arith
  qed
qed

lemma round_exact: "round_half_even (a * 2 ^ k) k = a"
  by (simp add: round_half_even_def Let_def)

lemma quiet_props:
  "0 \<le> m \<Longrightarrow> m < 2 ^ 23 \<Longrightarrow> 2 ^ 22 \<le> quiet m \<and> quiet m < 2 ^ 23 \<and> quiet (quiet m) = quiet m"
  by (simp add: quiet_def)

lemma quiet_id: "2 ^ 22 \<le> m \<Longrightarrow> quiet m = m"
  by (simp add: quiet_def)

lemma unpack_eval:
  assumes b: "s = 0 \<or> s = 1" "0 \<le> e" "e < 256" "0 \<le> m" "m < 2 ^ 23"
  shows "ieee_f32_unpack (f32_of s e m) =
     (if e = 255 then f64_of s 2047 (if m = 0 then 0 else quiet m * 2 ^ 29)
      else if e = 0 then
        (if m = 0 then f64_of s 0 0
         else f64_of s (int (bit_length m) + 873)
                ((m - 2 ^ (bit_length m - 1)) * 2 ^ (53 - bit_length m)))
      else f64_of s (e + 896) (m * 2 ^ 29))"
  unfolding ieee_f32_unpack_def Let_def f32_fields [OF b]
  by (simp add: f64_of_def)

lemma pack_inf_nan:
  assumes b: "s = 0 \<or> s = 1" "0 \<le> m" "m < 2 ^ 52"
  shows "ieee_f32_pack (f64_of s 2047 m)
     = Some (f32_of s 255 (if m = 0 then 0 else quiet (m div 2 ^ 29)))"
proof -
  have e: "0 \<le> (2047 :: int)" "(2047 :: int) < 2048" by simp_all
  have f: "uint (f64_of s 2047 m) div 2 ^ 63 = s"
    "(uint (f64_of s 2047 m) div 2 ^ 52) mod 2 ^ 11 = 2047"
    "uint (f64_of s 2047 m) mod 2 ^ 52 = m"
    using b(1) e b(2,3) by (rule f64_fields)+
  show ?thesis
    unfolding ieee_f32_pack_def Let_def f by (simp add: f32_of_def)
qed

lemma pack_zero:
  assumes b: "s = 0 \<or> s = 1"
  shows "ieee_f32_pack (f64_of s 0 0) = Some (f32_of s 0 0)"
proof -
  have z: "0 \<le> (0 :: int)" "(0 :: int) < 2 ^ 52" by simp_all
  have e: "0 \<le> (0 :: int)" "(0 :: int) < 2048" by simp_all
  have f: "uint (f64_of s 0 0) div 2 ^ 63 = s"
    "(uint (f64_of s 0 0) div 2 ^ 52) mod 2 ^ 11 = 0"
    "uint (f64_of s 0 0) mod 2 ^ 52 = 0"
    using b e z by (rule f64_fields)+
  show ?thesis
    unfolding ieee_f32_pack_def Let_def f by (simp add: f32_of_def)
qed

lemma pack_finite:
  assumes b: "s = 0 \<or> s = 1" "0 < e" "e < 2047" "0 \<le> m" "m < 2 ^ 52"
    and ex: "q = max (e - 1075 + 29) (- 149)" "k = nat (q - (e - 1075))"
    and r: "bits = (q + 149) * 2 ^ 23 + round_half_even (m + 2 ^ 52) k" "bits < 255 * 2 ^ 23"
  shows "ieee_f32_pack (f64_of s e m) = Some (word_of_int (s * 2 ^ 31 + bits))"
proof -
  have e: "0 \<le> (e :: int)" "(e :: int) < 2048" using b by simp_all
  have f: "uint (f64_of s e m) div 2 ^ 63 = s"
    "(uint (f64_of s e m) div 2 ^ 52) mod 2 ^ 11 = e"
    "uint (f64_of s e m) mod 2 ^ 52 = m"
    using b(1) e b(4,5) by (rule f64_fields)+
  have bl: "bit_length (m + 2 ^ 52) = Suc 52"
    using b by (intro bit_length_unique) simp_all
  have c1: "(e = 2047) = False" "(e = 0 \<and> m = 0) = False" "(e = 0) = False"
    using b by simp_all
  have c2: "max e 1 = e" using b by simp
  have bl': "int (bit_length (m + 2 ^ 52)) = 53"
    unfolding bl by simp
  have c3: "max (e - 1075 + int (bit_length (m + 2 ^ 52)) - 24) (- 149) = q"
    unfolding bl' using ex by simp
  have c4: "nat (q - (e - 1075)) = k" using ex by simp
  have c5: "(q + 149) * 2 ^ 23 + round_half_even (m + 2 ^ 52) k = bits" using r by simp
  have c6: "(255 * 2 ^ 23 \<le> bits) = False" using r by simp
  show ?thesis
    unfolding ieee_f32_pack_def Let_def f
    by (simp only: c1 c2 c3 c4 c5 c6 if_False simp_thms)
qed

lemma ieee_pack_unpack:
  assumes b: "s = 0 \<or> s = 1" "0 \<le> e" "e < 256" "0 \<le> m" "m < 2 ^ 23"
  shows "ieee_f32_pack (ieee_f32_unpack (f32_of s e m))
     = Some (f32_of s e (if e = 255 \<and> m \<noteq> 0 then quiet m else m))"
proof -
  consider (nan) "e = 255" | (zero) "e = 0" "m = 0" | (sub) "e = 0" "m \<noteq> 0"
    | (normal) "0 < e" "e < 255"
    using b by fastforce
  then show ?thesis
  proof cases
    case nan
    define M where "M = (if m = 0 then 0 else quiet m * 2 ^ 29)"
    have qm: "2 ^ 22 \<le> quiet m" "quiet m < 2 ^ 23" "quiet (quiet m) = quiet m"
      using quiet_props [OF b(4,5)] by simp_all
    have M: "0 \<le> M" "M < 2 ^ 52" using qm by (simp_all add: M_def)
    have "M div 2 ^ 29 = (if m = 0 then 0 else quiet m)" by (simp add: M_def)
    moreover have "(M = 0) = (m = 0)" using qm by (simp add: M_def)
    ultimately have "(if M = 0 then 0 else quiet (M div 2 ^ 29)) = (if m = 0 then 0 else quiet m)"
      using qm by simp
    then have "ieee_f32_pack (f64_of s 2047 M) = Some (f32_of s 255 (if m = 0 then 0 else quiet m))"
      using pack_inf_nan [OF b(1) M] by simp
    with nan show ?thesis
      unfolding unpack_eval [OF b] M_def by simp
  next
    case zero
    with pack_zero [OF b(1)] show ?thesis
      unfolding unpack_eval [OF b] by simp
  next
    case normal
    have m: "0 \<le> m * 2 ^ 29" "m * 2 ^ 29 < 2 ^ 52" using b by simp_all
    have e: "0 < e + 896" "e + 896 < 2047" using normal by simp_all
    have "m * 2 ^ 29 + 2 ^ 52 = (m + 2 ^ 23) * 2 ^ 29" by simp
    then have rd: "round_half_even (m * 2 ^ 29 + 2 ^ 52) 29 = m + 2 ^ 23"
      by (simp only: round_exact)
    have "ieee_f32_pack (f64_of s (e + 896) (m * 2 ^ 29))
        = Some (word_of_int (s * 2 ^ 31 + (e * 2 ^ 23 + m)))"
    proof (rule pack_finite [OF b(1) e m, where q = "e - 150" and k = 29])
      show "e - 150 = max (e + 896 - 1075 + 29) (- 149)" using normal by simp
      show "29 = nat (e - 150 - (e + 896 - 1075))" by simp
      show "e * 2 ^ 23 + m = (e - 150 + 149) * 2 ^ 23 + round_half_even (m * 2 ^ 29 + 2 ^ 52) 29"
        unfolding rd by simp
      show "e * 2 ^ 23 + m < 255 * 2 ^ 23" using normal b by simp
    qed
    with normal show ?thesis
      unfolding unpack_eval [OF b] by (simp add: f32_of_def)
  next
    case sub
    define p where "p = bit_length m"
    from sub b have mpos: "0 < m" by simp
    from bit_length_bounds [OF mpos] have pb: "2 ^ (p - 1) \<le> m" "m < 2 ^ p"
      by (simp_all add: p_def)
    have p1: "1 \<le> p" using mpos by (simp add: p_def bit_length_pos)
    have "(2 :: int) ^ (p - 1) < 2 ^ 23" using pb(1) b(5) by simp
    then have "p - 1 < 23" by (simp only: power_strict_increasing_iff)
    with p1 have p23: "p \<le> 23" by simp
    define c :: int where "c = 2 ^ (53 - p)"
    have cpos: "0 < c" by (simp add: c_def)
    have "(2 :: int) ^ (p - 1) * 2 ^ (53 - p) = 2 ^ (p - 1 + (53 - p))" by (simp add: power_add)
    also have "p - 1 + (53 - p) = 52" using p1 p23 by simp
    finally have half: "2 ^ (p - 1) * c = 2 ^ 52" by (simp add: c_def)
    define M where "M = (m - 2 ^ (p - 1)) * c"
    have sig: "M + 2 ^ 52 = m * c"
      unfolding M_def half [symmetric] by (simp add: algebra_simps)
    have "2 * (2 :: int) ^ (p - 1) = 2 ^ p" using p1 by (cases p) simp_all
    with pb(2) have "m - 2 ^ (p - 1) < 2 ^ (p - 1)" by simp
    then have "(m - 2 ^ (p - 1)) * c < 2 ^ (p - 1) * c"
      using cpos by (rule mult_strict_right_mono)
    then have M2: "M < 2 ^ 52"
      unfolding M_def half .
    have M1: "0 \<le> M"
      using pb(1) cpos by (simp add: M_def)
    note M = M1 M2
    have e: "0 < int p + 873" "int p + 873 < 2047" using p23 by simp_all
    have rd: "round_half_even (M + 2 ^ 52) (53 - p) = m"
      unfolding sig c_def by (rule round_exact)
    have "ieee_f32_pack (f64_of s (int p + 873) M) = Some (word_of_int (s * 2 ^ 31 + m))"
    proof (rule pack_finite [OF b(1) e M, where q = "- 149" and k = "53 - p"])
      show "- 149 = max (int p + 873 - 1075 + 29) (- 149)" using p23 by simp
      show "53 - p = nat (- 149 - (int p + 873 - 1075))" using p23 by simp
      show "m = (- 149 + 149) * 2 ^ 23 + round_half_even (M + 2 ^ 52) (53 - p)"
        unfolding rd by simp
      show "m < 255 * 2 ^ 23" using b by simp
    qed
    with sub show ?thesis
      unfolding unpack_eval [OF b] by (simp add: f32_of_def p_def M_def c_def)
  qed
qed

lemma snan_fields:
  assumes b: "s = 0 \<or> s = 1" "0 \<le> e" "e < 256" "0 \<le> m" "m < 2 ^ 23"
  shows "snan (f32_of s e m) = (e = 255 \<and> 0 < m \<and> m < 2 ^ 22)"
  unfolding snan_def Let_def f32_fields(2,3) [OF b] by simp

lemma ieee_exact:
  assumes "\<not> snan x"
  shows "ieee_f32_pack (ieee_f32_unpack x) = Some x"
proof -
  obtain s e m where x: "x = f32_of s e m"
    and b: "s = 0 \<or> s = 1" "0 \<le> e" "e < 256" "0 \<le> m" "m < 2 ^ 23"
    by (rule f32_cases)
  from assms have "\<not> (e = 255 \<and> 0 < m \<and> m < 2 ^ 22)"
    unfolding x snan_fields [OF b] .
  with b(4) have "(if e = 255 \<and> m \<noteq> 0 then quiet m else m) = m"
    by (auto simp: quiet_id)
  then show ?thesis
    unfolding x ieee_pack_unpack [OF b] by simp
qed

lemma ieee_fixed:
  "\<exists>w. ieee_f32_pack (ieee_f32_unpack x) = Some w \<and> ieee_f32_unpack w = ieee_f32_unpack x"
proof -
  obtain s e m where x: "x = f32_of s e m"
    and b: "s = 0 \<or> s = 1" "0 \<le> e" "e < 256" "0 \<le> m" "m < 2 ^ 23"
    by (rule f32_cases)
  define m' where "m' = (if e = 255 \<and> m \<noteq> 0 then quiet m else m)"
  have qm: "2 ^ 22 \<le> quiet m" "quiet m < 2 ^ 23" "quiet (quiet m) = quiet m"
    using quiet_props [OF b(4,5)] by simp_all
  have b': "0 \<le> m'" "m' < 2 ^ 23"
    using b qm by (simp_all add: m'_def)
  have "ieee_f32_unpack (f32_of s e m') = ieee_f32_unpack (f32_of s e m)"
    unfolding unpack_eval [OF b] unpack_eval [OF b(1,2,3) b']
    using qm by (auto simp: m'_def)
  moreover have "ieee_f32_pack (ieee_f32_unpack (f32_of s e m)) = Some (f32_of s e m')"
    unfolding ieee_pack_unpack [OF b] m'_def ..
  ultimately show ?thesis
    unfolding x by blast
qed

lemma ieee_ops_exact: "\<not> snan w \<Longrightarrow> f32_exact ieee_ops w"
  by (simp add: f32_exact_def ieee_ops_def ieee_exact)

lemma ieee_ops_fixed: "f32_fixed ieee_ops (PyFloat (f32_unpack ieee_ops w))"
  using ieee_fixed [of w] by (auto simp: f32_fixed_def ieee_ops_def)

lemma floats_quiet_exact: "floats_quiet be fs bs \<Longrightarrow> floats_exact ieee_ops be fs bs"
proof (induction fs arbitrary: bs)
  case Nil
  show ?case by simp
next
  case (Cons c fs)
  then show ?case by (cases c) (simp_all add: ieee_ops_exact)
qed

section \<open>Decoding, then encoding\<close>

lemma take_cat: "take a xs @ take b (drop a xs) = take (a + b) xs"
  by (simp add: take_add)

lemma take_cat2: "take a xs @ take b (drop a xs) @ ys = take (a + b) xs @ ys"
  by (simp add: take_add)

lemma zero_pad_anm: "length h = 8 \<Longrightarrow> zero_pad anm_STRUCT h = take 4 h @ replicate 4 0"
proof -
  have "zero_pad anm_STRUCT h = take 2 h @ take 1 (drop 2 h) @ take 1 (drop 3 h) @ replicate 4 0"
    by (simp add: anm_STRUCT_def numeral_eq_Suc)
  also have "\<dots> = take 4 h @ replicate 4 0"
    by (simp add: take_cat2 del: One_nat_def)
  finally show ?thesis .
qed

lemma zero_pad_sound:
  "zero_pad sound_STRUCT c = take 26 c @ replicate 6 0"
proof -
  have "zero_pad sound_STRUCT c =
      take 4 c @ take 4 (drop 4 c) @ take 4 (drop 8 c) @ take 4 (drop 12 c)
      @ take 4 (drop 16 c) @ take 1 (drop 20 c) @ take 1 (drop 21 c) @ take 1 (drop 22 c)
      @ take 1 (drop 23 c) @ take 1 (drop 24 c) @ take 1 (drop 25 c) @ replicate 6 0"
    by (simp add: sound_STRUCT_def numeral_eq_Suc)
  also have "\<dots> = take 26 c @ replicate 6 0"
    by (simp add: take_cat2 del: One_nat_def)
  finally show ?thesis .
qed

lemma decode_chunks_length:
  "decode_chunks fo be lk n data = Inr ss \<Longrightarrow> length ss = n"
  by (induction n arbitrary: data ss) (auto simp: bind_eq_Inr)

lemma sound_of_chunk_resolved:
  assumes "32 \<le> length chunk" "find_name lk (from_bytes be (take 4 chunk)) \<noteq> Inl KeyError"
  shows "\<exists>s. sound_of_chunk fo be lk chunk = Inr s"
proof -
  from assms(2) obtain name where "find_name lk (from_bytes be (take 4 chunk)) = Inr name"
    by (cases "find_name lk (from_bytes be (take 4 chunk))") (auto dest: find_name_error)
  with assms(1) show ?thesis
    by (simp add: sound_of_chunk_full struct_unpack_sound)
qed

lemma drop_chunk: "drop (32 * i) (drop 32 data) = drop (32 * Suc i) data"
  by (simp add: add.commute)

lemma decode_chunks_resolved:
  assumes "32 * n \<le> length data"
    and "\<forall>i<n. find_name lk (from_bytes be (take 4 (take 32 (drop (32 * i) data)))) \<noteq> Inl KeyError"
  shows "\<exists>ss. decode_chunks fo be lk n data = Inr ss"
  using assms
proof (induction n arbitrary: data)
  case 0
  show ?case by simp
next
  case (Suc n)
  from Suc.prems(2) have "find_name lk (from_bytes be (take 4 (take 32 data))) \<noteq> Inl KeyError"
    by (auto dest: spec [of _ 0])
  with Suc.prems(1) obtain s where s: "sound_of_chunk fo be lk (take 32 data) = Inr s"
    using sound_of_chunk_resolved [of "take 32 data" lk be fo] by auto
  have p1: "32 * n \<le> length (drop 32 data)" using Suc.prems(1) by simp
  have p2: "\<forall>i<n. find_name lk (from_bytes be (take 4 (take 32 (drop (32 * i) (drop 32 data)))))
      \<noteq> Inl KeyError"
    using Suc.prems(2) unfolding drop_chunk by auto
  from Suc.IH [OF p1 p2] obtain ss where "decode_chunks fo be lk n (drop 32 data) = Inr ss" ..
  with s show ?case by simp
qed

lemma sounds_bytes_of_chunks:
  assumes "decode_chunks fo be lk n data = Inr ss"
    and "32 * n \<le> length data"
    and "distinct (map fst lk)"
    and "\<forall>i<n. floats_exact fo be sound_STRUCT (take 32 (drop (32 * i) data))"
    and "\<forall>i<n. drop 26 (take 32 (drop (32 * i) data)) = replicate 6 0"
  shows "sounds_bytes fo be lk ss = Inr (take (32 * n) data)"
  using assms
proof (induction n arbitrary: data ss)
  case 0
  then show ?case by simp
next
  case (Suc n)
  from Suc.prems(1) obtain s ss' where s: "sound_of_chunk fo be lk (take 32 data) = Inr s"
    and ss': "decode_chunks fo be lk n (drop 32 data) = Inr ss'" and ss: "ss = s # ss'"
    by (auto simp: bind_eq_Inr)
  have len: "length (take 32 data) = 32" using Suc.prems(2) by simp
  have "floats_exact fo be sound_STRUCT (take 32 data)"
    "drop 26 (take 32 data) = replicate 6 0"
    using Suc.prems(4,5) by (auto dest: spec [of _ 0])
  then have "sound_bytes fo be lk s = Inr (take 26 (take 32 data) @ drop 26 (take 32 data))"
    using sound_bytes_of_chunk [OF len s Suc.prems(3)] by (simp add: zero_pad_sound)
  then have b: "sound_bytes fo be lk s = Inr (take 32 data)"
    by (simp only: append_take_drop_id)
  have "\<forall>i<n. floats_exact fo be sound_STRUCT (take 32 (drop (32 * i) (drop 32 data)))"
    "\<forall>i<n. drop 26 (take 32 (drop (32 * i) (drop 32 data))) = replicate 6 0"
    using Suc.prems(4,5) unfolding drop_chunk by auto
  with ss' Suc.prems(2,3) have "sounds_bytes fo be lk ss' = Inr (take (32 * n) (drop 32 data))"
    by (intro Suc.IH) simp_all
  with b ss show ?case
    by (simp add: take_cat)
qed

lemma entry_chunk_drop: "entry_chunk buffer i = take 32 (drop (32 * i) (drop 8 buffer))"
  by (simp add: entry_chunk_def add.commute)

lemma from_buffer_chunks:
  assumes "0 \<le> off" "nat off + 8 \<le> length buffer"
  shows "from_buffer fo lk buffer off be =
     bind (decode_chunks fo be lk (nat (from_bytes be (take 2 (drop (nat off) buffer))))
             (drop (nat off + 8) buffer))
       (\<lambda>ss. Inr \<lparr>items = ss, lookup_of = lk,
                   unk2 = PyInt (from_bytes be (take 1 (drop (nat off + 2) buffer))),
                   unk3 = PyInt (from_bytes be (take 1 (drop (nat off + 3) buffer)))\<rparr>)"
proof -
  define h where "h = take 8 (drop (nat off) buffer)"
  have "unpack_from fo be anm_STRUCT buffer off = Inr (struct_unpack fo be anm_STRUCT h)"
    using assms struct_offset_nat [of "nat off" 8 "length buffer"]
    by (simp add: unpack_from_def h_def)
  moreover have "take 2 h = take 2 (drop (nat off) buffer)"
    "take 1 (drop 2 h) = take 1 (drop (nat off + 2) buffer)"
    "take 1 (drop 3 h) = take 1 (drop (nat off + 3) buffer)"
    by (simp_all add: h_def drop_take add.commute del: One_nat_def)
  moreover have "unpack_sounds fo self buffer (off + 8) be n
      = bind (decode_chunks fo be (lookup_of self) n (drop (nat off + 8) buffer))
          (\<lambda>ss. Inr (self\<lparr>items := items self @ ss\<rparr>))" for self n
    using assms(1) unpack_sounds_chunks [of "off + 8" fo self buffer be n]
    by (simp add: nat_add_distrib)
  ultimately show ?thesis
    by (simp add: from_buffer_def JAUSoundAnimation_unpack_def struct_unpack_anm
        JAUSoundAnimation_init_def del: One_nat_def)
qed

lemma dict_set_keys: "set (map fst (dict_set k v d)) = insert k (set (map fst d))"
proof (induction d)
  case Nil
  show ?case by simp
next
  case (Cons a d)
  obtain k' v' where a: "a = (k', v')" by (cases a)
  from Cons.IH show ?case
    by (cases "k' = k") (simp_all add: a insert_commute)
qed

lemma dict_set_distinct: "distinct (map fst d) \<Longrightarrow> distinct (map fst (dict_set k v d))"
proof (induction d)
  case Nil
  show ?case by simp
next
  case (Cons a d)
  obtain k' v' where a: "a = (k', v')" by (cases a)
  show ?case
  proof (cases "k' = k")
    case True
    with Cons.prems a show ?thesis by simp
  next
    case False
    with Cons a dict_set_keys [of k v d] show ?thesis by auto
  qed
qed

lemma add_fields_distinct:
  "add_fields d fs = Inr d' \<Longrightarrow> distinct (map fst d) \<Longrightarrow> distinct (map fst d')"
proof (induction fs arbitrary: d)
  case Nil
  then show ?case by simp
next
  case (Cons f fs)
  then show ?case
    by (auto split: list.splits sum.splits dest: dict_set_distinct)
qed

lemma init_distinct: "JAUSoundIdTable_init src = Inr d \<Longrightarrow> distinct (map fst d)"
  by (cases src) (auto simp: JAUSoundIdTable_init_def dest: add_fields_distinct)

lemma header_repack:
  assumes "8 \<le> length buf" "take 4 (drop 4 buf) = replicate 4 0"
  shows "struct_pack fo be anm_STRUCT
           [PyInt (from_bytes be (take 2 buf)), PyInt (from_bytes be (take 1 (drop 2 buf))),
            PyInt (from_bytes be (take 1 (drop 3 buf)))] = Inr (take 8 buf)"
proof -
  have "struct_pack fo be anm_STRUCT (struct_unpack fo be anm_STRUCT (take 8 buf))
      = Inr (zero_pad anm_STRUCT (take 8 buf))"
    using assms(1) by (intro struct_pack_unpack) (simp_all add: anm_STRUCT_def)
  moreover have "zero_pad anm_STRUCT (take 8 buf) = take 4 buf @ take 4 (drop 4 buf)"
    using assms by (simp add: zero_pad_anm)
  moreover have "take 4 buf @ take 4 (drop 4 buf) = take 8 buf"
    by (simp add: take_cat)
  moreover have "take 1 (drop 2 (take 8 buf)) = take 1 (drop 2 buf)"
    "take 1 (drop 3 (take 8 buf)) = take 1 (drop 3 buf)"
    by (simp_all add: drop_take del: One_nat_def)
  ultimately show ?thesis
    by (simp add: struct_unpack_anm del: One_nat_def)
qed

lemma reencode_exact:
  assumes len: "length buf = 8 + 32 * N"
    and cnt: "from_bytes be (take 2 buf) = int N"
    and hpad: "take 4 (drop 4 buf) = replicate 4 0"
    and epad: "\<forall>i<N. drop 26 (entry_chunk buf i) = replicate 6 0"
    and res: "\<forall>i<N. find_name lk (from_bytes be (take 4 (entry_chunk buf i))) \<noteq> Inl KeyError"
    and lk: "distinct (map fst lk)"
    and fx: "\<forall>i<N. floats_exact fo be sound_STRUCT (entry_chunk buf i)"
  shows "\<exists>A. from_buffer fo lk buf 0 be = Inr A \<and> pack_buffer fo A be = Inr buf"
proof -
  have l8: "32 * N \<le> length (drop 8 buf)" using len by simp
  have "\<forall>i<N. find_name lk (from_bytes be (take 4 (take 32 (drop (32 * i) (drop 8 buf)))))
      \<noteq> Inl KeyError"
    using res by (simp only: entry_chunk_drop)
  with l8 obtain ss where ss: "decode_chunks fo be lk N (drop 8 buf) = Inr ss"
    using decode_chunks_resolved by blast
  then have n: "length ss = N" by (rule decode_chunks_length)
  define A where "A = \<lparr>items = ss, lookup_of = lk,
      unk2 = PyInt (from_bytes be (take 1 (drop 2 buf))),
      unk3 = PyInt (from_bytes be (take 1 (drop 3 buf)))\<rparr>"
  have dec: "from_buffer fo lk buf 0 be = Inr A"
    using len cnt ss from_buffer_chunks [of 0 buf fo lk be]
    by (simp add: A_def del: One_nat_def add_2_eq_Suc add_2_eq_Suc')
  have "\<forall>i<N. floats_exact fo be sound_STRUCT (take 32 (drop (32 * i) (drop 8 buf)))"
    "\<forall>i<N. drop 26 (take 32 (drop (32 * i) (drop 8 buf))) = replicate 6 0"
    using fx epad by (simp_all only: entry_chunk_drop)
  with ss l8 lk have "sounds_bytes fo be lk ss = Inr (take (32 * N) (drop 8 buf))"
    by (intro sounds_bytes_of_chunks)
  then have body: "sounds_bytes fo be lk ss = Inr (drop 8 buf)"
    using len by simp
  have "struct_pack fo be anm_STRUCT
           [PyInt (int N), PyInt (from_bytes be (take 1 (drop 2 buf))),
            PyInt (from_bytes be (take 1 (drop 3 buf)))] = Inr (take 8 buf)"
    using header_repack [where buf = buf and be = be and fo = fo] len hpad cnt by simp
  with body n have "pack_buffer fo A be = Inr buf"
    by (simp add: pack_buffer_def makebin_concat A_def)
  with dec show ?thesis by blast
qed

text \<open>
  C1 (byte-exact re-encoding), with the binary32 conversions of IEEE hardware. Let \<open>buf\<close>
  be a buffer of exactly \<open>8 + 32 * N\<close> bytes whose header declares \<open>N\<close> entries, whose four
  header padding bytes and six padding bytes of every entry are zero, whose every entry ID
  is known to the table (a dict: its names are distinct), and none of whose float fields
  holds a signalling NaN. Then decoding \<open>buf\<close> at offset 0 succeeds and encoding the result
  gives \<open>buf\<close> again, in either byte order.
\<close>

theorem C1_reencode:
  assumes len: "length buf = 8 + 32 * N"
    and cnt: "from_bytes be (take 2 buf) = int N"
    and hpad: "take 4 (drop 4 buf) = replicate 4 0"
    and epad: "\<forall>i<N. drop 26 (entry_chunk buf i) = replicate 6 0"
    and res: "\<forall>i<N. find_name lk (from_bytes be (take 4 (entry_chunk buf i))) \<noteq> Inl KeyError"
    and lk: "distinct (map fst lk)"
    and qt: "\<forall>i<N. floats_quiet be sound_STRUCT (entry_chunk buf i)"
  shows "\<exists>A. from_buffer ieee_ops lk buf 0 be = Inr A \<and> pack_buffer ieee_ops A be = Inr buf"
proof -
  from qt have "\<forall>i<N. floats_exact ieee_ops be sound_STRUCT (entry_chunk buf i)"
    by (auto intro: floats_quiet_exact)
  with len cnt hpad epad res lk show ?thesis
    by (rule reencode_exact)
qed

theorem C1_reencode_witness:
  "length one_entry_buffer = 8 + 32 * 1
   \<and> from_bytes True (take 2 one_entry_buffer) = 1
   \<and> floats_quiet True sound_STRUCT (entry_chunk one_entry_buffer 0)
   \<and> find_name one_name_table (from_bytes True (take 4 (entry_chunk one_entry_buffer 0))) = Inr ''a''
   \<and> (\<exists>A. from_buffer ieee_ops one_name_table one_entry_buffer 0 True = Inr A
          \<and> pack_buffer ieee_ops A True = Inr one_entry_buffer)"
proof -
  have len: "length one_entry_buffer = 8 + 32 * 1"
    by (simp add: one_entry_buffer_def)
  have cnt: "from_bytes True (take 2 one_entry_buffer) = int 1"
    by code_simp
  have hpad: "take 4 (drop 4 one_entry_buffer) = replicate 4 0"
    by code_simp
  have epad: "drop 26 (entry_chunk one_entry_buffer 0) = replicate 6 0"
    by code_simp
  have res: "find_name one_name_table (from_bytes True (take 4 (entry_chunk one_entry_buffer 0)))
      = Inr ''a''"
    by code_simp
  have qt: "floats_quiet True sound_STRUCT (entry_chunk one_entry_buffer 0)"
    by code_simp
  have "\<exists>A. from_buffer ieee_ops one_name_table one_entry_buffer 0 True = Inr A
          \<and> pack_buffer ieee_ops A True = Inr one_entry_buffer"
    using len cnt hpad epad res qt
    by (intro C1_reencode [where N = 1]) (simp_all add: one_name_table_def)
  with len cnt res qt show ?thesis by simp
qed

text \<open>C1 as stated fails: a signalling NaN in a float field comes back quiet. The buffer
  meets every condition, and encoding what it decodes to changes byte 13 from \<^verbatim>\<open>80\<close> to
  \<^verbatim>\<open>C0\<close>.\<close>

theorem C1_counterexample:
  "length snan_buffer = 8 + 32 * 1
   \<and> from_bytes True (take 2 snan_buffer) = 1
   \<and> take 4 (drop 4 snan_buffer) = replicate 4 0
   \<and> drop 26 (entry_chunk snan_buffer 0) = replicate 6 0
   \<and> find_name one_name_table (from_bytes True (take 4 (entry_chunk snan_buffer 0))) = Inr ''a''
   \<and> from_buffer ieee_ops one_name_table snan_buffer 0 True = Inr snan_animation
   \<and> pack_buffer ieee_ops snan_animation True = Inr (snan_buffer[13 := 0xC0])
   \<and> snan_buffer[13 := 0xC0] \<noteq> snan_buffer"
proof -
  have "length snan_buffer = 8 + 32 * 1"
    by (simp add: snan_buffer_def)
  moreover have "from_bytes True (take 2 snan_buffer) = 1"
    "take 4 (drop 4 snan_buffer) = replicate 4 0"
    "drop 26 (entry_chunk snan_buffer 0) = replicate 6 0"
    "find_name one_name_table (from_bytes True (take 4 (entry_chunk snan_buffer 0))) = Inr ''a''"
    by code_simp+
  moreover have "from_buffer ieee_ops one_name_table snan_buffer 0 True = Inr snan_animation"
    by code_simp
  moreover have "pack_buffer ieee_ops snan_animation True = Inr (snan_buffer[13 := 0xC0])"
    by code_simp
  moreover have "snan_buffer[13 := 0xC0] \<noteq> snan_buffer"
    by code_simp
  ultimately show ?thesis by simp
qed

section \<open>The bytes that decoding reads\<close>

lemma decode_chunks_take:
  "decode_chunks fo be lk n (take (32 * n) data) = decode_chunks fo be lk n data"
proof (induction n arbitrary: data)
  case 0
  show ?case by simp
next
  case (Suc n)
  have a: "take 32 (take (32 * Suc n) data) = take 32 data"
    by (simp add: min_def)
  have b: "drop 32 (take (32 * Suc n) data) = take (32 * n) (drop 32 data)"
    by (simp add: drop_take)
  show ?case
    by (simp only: decode_chunks.simps a b Suc.IH)
qed

lemma from_buffer_window:
  assumes off: "0 \<le> off" and len: "nat off + 8 \<le> length buf"
    and N: "N = nat (from_bytes be (take 2 (drop (nat off) buf)))"
  shows "from_buffer fo lk buf off be
     = from_buffer fo lk (take (8 + 32 * N) (drop (nat off) buf)) 0 be"
proof -
  define w where "w = take (8 + 32 * N) (drop (nat off) buf)"
  have w8: "nat 0 + 8 \<le> length w" using len by (simp add: w_def)
  have h: "take 2 (drop (nat 0) w) = take 2 (drop (nat off) buf)"
    "take 1 (drop (nat 0 + 2) w) = take 1 (drop (nat off + 2) buf)"
    "take 1 (drop (nat 0 + 3) w) = take 1 (drop (nat off + 3) buf)"
    "drop (nat 0 + 8) w = take (32 * N) (drop (nat off + 8) buf)"
    by (simp_all add: w_def drop_take min_def add.commute
        del: One_nat_def add_2_eq_Suc add_2_eq_Suc')
  have "from_buffer fo lk w 0 be = from_buffer fo lk buf off be"
    unfolding from_buffer_chunks [OF off len] from_buffer_chunks [OF order_refl w8] h
    by (simp only: N [symmetric] decode_chunks_take)
  then show ?thesis by (simp add: w_def)
qed

lemma entry_chunk_at:
  "entry_chunk (drop p buf) i = take 32 (drop (32 * i) (drop (p + 8) buf))"
  by (simp add: entry_chunk_def add_ac)

text \<open>
  C10 (decoding reads only its window). Let the header at offset \<open>off\<close> (not negative) of
  \<open>buf\<close> declare \<open>N\<close> entries, let \<open>buf\<close> hold at least \<open>8 + 32 * N\<close> bytes from \<open>off\<close>, and
  let the table know every entry ID. Then decoding succeeds, and decoding any buffer
  \<open>buf'\<close> at any offset \<open>off'\<close> (not negative) where it holds the same \<open>8 + 32 * N\<close> bytes
  gives the same animation: the bytes before the offset and behind the last entry are not
  read.
\<close>

theorem C10_decode_window:
  assumes off: "0 \<le> off" and off': "0 \<le> off'"
    and N: "N = nat (from_bytes be (take 2 (drop (nat off) buf)))"
    and len: "nat off + 8 + 32 * N \<le> length buf"
    and res: "\<forall>i<N. find_name lk (from_bytes be (take 4 (entry_chunk (drop (nat off) buf) i)))
        \<noteq> Inl KeyError"
    and agree: "take (8 + 32 * N) (drop (nat off') buf') = take (8 + 32 * N) (drop (nat off) buf)"
  shows "\<exists>A. from_buffer fo lk buf off be = Inr A \<and> from_buffer fo lk buf' off' be = Inr A"
proof -
  have len8: "nat off + 8 \<le> length buf" using len by simp
  have l: "32 * N \<le> length (drop (nat off + 8) buf)" using len by simp
  have "\<forall>i<N. find_name lk (from_bytes be
        (take 4 (take 32 (drop (32 * i) (drop (nat off + 8) buf))))) \<noteq> Inl KeyError"
    using res by (simp only: entry_chunk_at)
  with l obtain ss where "decode_chunks fo be lk N (drop (nat off + 8) buf) = Inr ss"
    using decode_chunks_resolved by blast
  then obtain A where A: "from_buffer fo lk buf off be = Inr A"
    unfolding from_buffer_chunks [OF off len8] N [symmetric] by simp
  have "length (take (8 + 32 * N) (drop (nat off') buf')) = 8 + 32 * N"
    using len by (simp add: agree)
  then have len8': "nat off' + 8 \<le> length buf'" by simp
  have "take 2 (take (8 + 32 * N) (drop (nat off') buf'))
      = take 2 (take (8 + 32 * N) (drop (nat off) buf))"
    by (simp only: agree)
  then have N': "N = nat (from_bytes be (take 2 (drop (nat off') buf')))"
    by (simp add: N min_def)
  have "from_buffer fo lk buf' off' be = from_buffer fo lk buf off be"
    unfolding from_buffer_window [OF off' len8' N'] from_buffer_window [OF off len8 N]
    by (simp only: agree)
  with A show ?thesis by simp
qed

theorem C10_decode_window_witness:
  "1 = nat (from_bytes True (take 2 (drop (nat 0) one_entry_buffer)))
   \<and> nat 0 + 8 + 32 * 1 \<le> length one_entry_buffer
   \<and> find_name one_name_table
        (from_bytes True (take 4 (entry_chunk (drop (nat 0) one_entry_buffer) 0))) = Inr ''a''
   \<and> take (8 + 32 * 1) (drop (nat 2) ([9, 9] @ one_entry_buffer @ [7, 7, 7]))
       = take (8 + 32 * 1) (drop (nat 0) one_entry_buffer)
   \<and> (\<exists>A. from_buffer ieee_ops one_name_table one_entry_buffer 0 True = Inr A
          \<and> from_buffer ieee_ops one_name_table ([9, 9] @ one_entry_buffer @ [7, 7, 7]) 2 True
              = Inr A)"
proof -
  have N: "1 = nat (from_bytes True (take 2 (drop (nat 0) one_entry_buffer)))"
    by code_simp
  have len: "nat 0 + 8 + 32 * 1 \<le> length one_entry_buffer"
    by code_simp
  have res: "find_name one_name_table
        (from_bytes True (take 4 (entry_chunk (drop (nat 0) one_entry_buffer) 0))) = Inr ''a''"
    by code_simp
  have agree: "take (8 + 32 * 1) (drop (nat 2) ([9, 9] @ one_entry_buffer @ [7, 7, 7]))
       = take (8 + 32 * 1) (drop (nat 0) one_entry_buffer)"
    by code_simp
  have "\<exists>A. from_buffer ieee_ops one_name_table one_entry_buffer 0 True = Inr A
          \<and> from_buffer ieee_ops one_name_table ([9, 9] @ one_entry_buffer @ [7, 7, 7]) 2 True
              = Inr A"
  proof (rule C10_decode_window [where N = 1, OF _ _ N len _ agree])
    show "\<forall>i<1. find_name one_name_table
        (from_bytes True (take 4 (entry_chunk (drop (nat 0) one_entry_buffer) i))) \<noteq> Inl KeyError"
      using res by simp
  qed simp_all
  with N len res agree show ?thesis by simp
qed

section \<open>What the encoder returns\<close>

lemma pack_uint_packs: "uint_packs n v \<Longrightarrow> \<exists>b. pack_uint be n v = Inr b"
  by (auto simp: uint_packs_def pack_uint_def split: pyval.splits)

lemma pack_double_packs: "double_packs fo (Some x) \<Longrightarrow> \<exists>r. pack_double fo be x = Inr r"
  by (auto simp: double_packs_def pack_double_def)

lemma pack_int_as_float_packs:
  "double_packs fo (int_as_double fo i) \<Longrightarrow> \<exists>r. pack_int_as_float fo be i = Inr r"
  by (auto simp: double_packs_def pack_int_as_float_def pack_double_def split: option.splits)

lemma pack_float_packs:
  assumes "float_packs fo v"
  shows "\<exists>r. pack_float fo be v = Inr r"
proof (cases v)
  case (PyFloat x)
  with assms pack_double_packs [of fo x be] show ?thesis
    by (simp add: float_packs_def pack_float_def)
next
  case (PyInt i)
  with assms pack_int_as_float_packs [of fo i be] show ?thesis
    by (simp add: float_packs_def pack_float_def)
next
  case (PyBool b)
  with assms pack_int_as_float_packs [of fo "if b then 1 else 0" be]
  show ?thesis
    by (simp add: float_packs_def pack_float_def)
qed (use assms in \<open>simp_all add: float_packs_def\<close>)

lemma packs_struct_pack: "packs fo fs vs \<Longrightarrow> \<exists>bs. struct_pack fo be fs vs = Inr bs"
proof (induction fo fs vs rule: packs.induct [case_names nil pad float half word byte])
  case (nil fo)
  show ?case by simp
next
  case (pad fo fs vs)
  then show ?case by auto
next
  case (float fo fs v vs)
  then show ?case using pack_float_packs [of fo v be] by auto
next
  case (half fo fs v vs)
  then show ?case using pack_uint_packs [of 2 v be] by auto
next
  case (word fo fs v vs)
  then show ?case using pack_uint_packs [of 4 v be] by auto
next
  case (byte fo fs v vs)
  then show ?case using pack_uint_packs [of 1 v be] by auto
qed simp_all

lemma struct_pack_pads: "struct_pack fo be fs vs = Inr bs \<Longrightarrow> zero_pad fs bs = bs"
proof (induction fo be fs vs arbitrary: bs
    rule: struct_pack.induct [case_names nil pad float half word byte])
  case (nil fo be)
  then show ?case by simp
next
  case (pad fo be fs vs)
  then show ?case by (auto simp: bind_eq_Inr)
next
  case (float fo be fs v vs)
  then show ?case by (auto simp: bind_eq_Inr dest: pack_float_length)
next
  case (half fo be fs v vs)
  then show ?case by (auto simp: bind_eq_Inr dest: pack_uint_length)
next
  case (word fo be fs v vs)
  then show ?case by (auto simp: bind_eq_Inr dest: pack_uint_length)
next
  case (byte fo be fs v vs)
  then show ?case by (auto simp: bind_eq_Inr dest: pack_uint_length)
qed simp_all

lemma sound_bytes_pad:
  assumes "sound_bytes fo be lk s = Inr b"
  shows "drop 26 b = replicate 6 0"
proof -
  from assms have len: "length b = 32" by (rule sound_bytes_length)
  from assms have "zero_pad sound_STRUCT b = b"
    by (auto simp: sound_bytes_def bind_eq_Inr dest: struct_pack_pads)
  then have "drop 26 b = drop 26 (take 26 b @ replicate 6 0)"
    by (simp add: zero_pad_sound)
  also have "\<dots> = replicate 6 0" using len by simp
  finally show ?thesis .
qed

lemma sounds_bytes_pad:
  "sounds_bytes fo be lk ss = Inr body \<Longrightarrow> i < length ss \<Longrightarrow>
   drop 26 (take 32 (drop (32 * i) body)) = replicate 6 0"
proof (induction ss arbitrary: body i)
  case Nil
  then show ?case by simp
next
  case (Cons s ss)
  from Cons.prems(1) obtain b r where b: "sound_bytes fo be lk s = Inr b"
    and r: "sounds_bytes fo be lk ss = Inr r" and body: "body = b @ r"
    by (auto simp: bind_eq_Inr)
  from b have len: "length b = 32" by (rule sound_bytes_length)
  show ?case
  proof (cases i)
    case 0
    with b body len show ?thesis by (simp add: sound_bytes_pad)
  next
    case (Suc j)
    with Cons.prems(2) have "j < length ss" by simp
    with r have "drop 26 (take 32 (drop (32 * j) r)) = replicate 6 0" by (rule Cons.IH)
    with Suc body len show ?thesis by simp
  qed
qed

lemma header_pack_shape:
  assumes "struct_pack fo be anm_STRUCT [PyInt n, u2, u3] = Inr h"
  shows "length h = 8 \<and> from_bytes be (take 2 h) = n \<and> take 4 (drop 4 h) = replicate 4 0"
proof -
  from assms have len: "length h = 8" by (auto dest: struct_pack_length)
  from assms obtain b r where b: "pack_uint be 2 (PyInt n) = Inr b" and h: "h = b @ r"
    by (auto simp: anm_STRUCT_def bind_eq_Inr)
  from b have "b = to_bytes be 2 n" "0 \<le> n" "n < 256 ^ 2"
    by (auto simp: pack_uint_def split: if_splits)
  then have cnt: "from_bytes be (take 2 h) = n"
    using h by (simp add: from_bytes_to_bytes)
  from assms have "zero_pad anm_STRUCT h = h" by (rule struct_pack_pads)
  then have "drop 4 h = drop 4 (take 4 h @ replicate 4 0)"
    using len by (simp add: zero_pad_anm)
  also have "\<dots> = replicate 4 0" using len by simp
  finally have "take 4 (drop 4 h) = replicate 4 0" by simp
  with len cnt show ?thesis by simp
qed

lemma makebin_shape:
  assumes "makebin fo A be = Inr bs"
  shows "length bs = 8 + 32 * length (items A)
     \<and> from_bytes be (take 2 bs) = int (length (items A))
     \<and> take 4 (drop 4 bs) = replicate 4 0
     \<and> (\<forall>i<length (items A). drop 26 (entry_chunk bs i) = replicate 6 0)"
proof -
  from assms obtain h body where
    h: "struct_pack fo be anm_STRUCT [PyInt (int (length (items A))), unk2 A, unk3 A] = Inr h"
    and body: "sounds_bytes fo be (lookup_of A) (items A) = Inr body" and bs: "bs = h @ body"
    by (auto simp: makebin_concat bind_eq_Inr)
  from h have hs: "length h = 8" "from_bytes be (take 2 h) = int (length (items A))"
    "take 4 (drop 4 h) = replicate 4 0"
    using header_pack_shape by blast+
  from body have lb: "length body = 32 * length (items A)" by (rule sounds_bytes_length)
  have "drop 26 (entry_chunk bs i) = replicate 6 0" if "i < length (items A)" for i
    using sounds_bytes_pad [OF body that] hs(1) by (simp add: entry_chunk_drop bs)
  with hs lb bs show ?thesis by simp
qed

lemma entry_packs_bytes: "entry_packs fo lk s \<Longrightarrow> \<exists>b. sound_bytes fo be lk s = Inr b"
  by (auto simp: entry_packs_def sound_bytes_def split: sum.splits dest: packs_struct_pack)

lemma sounds_packs:
  "list_all (entry_packs fo lk) ss \<Longrightarrow> \<exists>body. sounds_bytes fo be lk ss = Inr body"
proof (induction ss)
  case Nil
  show ?case by simp
next
  case (Cons s ss)
  then obtain b body where "sound_bytes fo be lk s = Inr b" "sounds_bytes fo be lk ss = Inr body"
    using entry_packs_bytes [of fo lk s be] by auto
  then show ?case by simp
qed

lemma wire_ok_makebin:
  assumes "wire_ok fo A"
  shows "\<exists>bs. makebin fo A be = Inr bs"
proof -
  from assms have "packs fo anm_STRUCT [PyInt (int (length (items A))), unk2 A, unk3 A]"
    by (simp add: wire_ok_def anm_STRUCT_def uint_packs_def)
  then obtain h where
    "struct_pack fo be anm_STRUCT [PyInt (int (length (items A))), unk2 A, unk3 A] = Inr h"
    using packs_struct_pack by blast
  moreover from assms obtain body where
    "sounds_bytes fo be (lookup_of A) (items A) = Inr body"
    using sounds_packs [of fo "lookup_of A" "items A" be] by (auto simp: wire_ok_def)
  ultimately show ?thesis by (simp add: makebin_concat)
qed

lemma fresh_wire_ok: "wire_ok ieee_ops fresh_animation"
proof -
  have "list_all (entry_packs ieee_ops (lookup_of fresh_animation)) (items fresh_animation)"
    by code_simp
  then show ?thesis
    by (simp add: wire_ok_def) (simp add: fresh_animation_def uint_packs_def)
qed

text \<open>
  C7 (header authority), for the animations that the format can hold. Let an animation
  have at most 65535 entries, let its \<open>unk2\<close> and \<open>unk3\<close> be values that code \<^verbatim>\<open>B\<close>
  accepts, and let every entry have a name of the table whose ID, with the entry's ten
  attributes, its struct accepts. Then \<open>pack_buffer\<close> returns bytes, \<open>8 + 32 * N\<close> of them
  for \<open>N\<close> entries, and the count in the header is \<open>N\<close>, the length of the list. The function
  returns the bytes and nothing else: the animation is its argument, unchanged.
\<close>

theorem C7_header_count:
  assumes "wire_ok fo A"
  shows "\<exists>bs. pack_buffer fo A be = Inr bs \<and> length bs = 8 + 32 * length (items A)
     \<and> from_bytes be (take 2 bs) = int (length (items A))"
proof -
  from assms obtain bs where "makebin fo A be = Inr bs"
    using wire_ok_makebin by blast
  then show ?thesis
    using makebin_shape [of fo A be bs] by (simp add: pack_buffer_def)
qed

theorem C7_header_count_witness:
  "wire_ok ieee_ops fresh_animation
   \<and> (\<exists>bs. pack_buffer ieee_ops fresh_animation True = Inr bs \<and> length bs = 72
          \<and> from_bytes True (take 2 bs) = 2)"
  using C7_header_count [of ieee_ops fresh_animation True] fresh_wire_ok
  by (simp add: fresh_animation_def)

theorem C7_counterexample:
  "find_id (lookup_of big_animation) (sound JAUSoundAnimationSound_init) = Inr 0
   \<and> items big_animation = replicate 65536 JAUSoundAnimationSound_init
   \<and> pack_buffer ieee_ops big_animation True = Inl StructError"
  by (simp add: big_animation_def find_id_def JAUSoundAnimationSound_init_def pack_buffer_def
      makebin_concat anm_STRUCT_def pack_uint_def)

text \<open>
  C8 (padding is zero). Whatever bytes \<open>pack_buffer\<close> returns for an animation, the four
  bytes behind the header attributes are zero and so are the last six bytes of each entry's
  32; and it does return bytes for every animation that the format can hold.
\<close>

theorem C8_padding_zero:
  "(pack_buffer fo A be = Inr bs \<longrightarrow>
      take 4 (drop 4 bs) = replicate 4 0
      \<and> (\<forall>i<length (items A). drop 26 (entry_chunk bs i) = replicate 6 0))
   \<and> (wire_ok fo A \<longrightarrow> (\<exists>bs'. pack_buffer fo A be = Inr bs'))"
  using makebin_shape [of fo A be bs] wire_ok_makebin [of fo A be]
  by (simp add: pack_buffer_def)

theorem C8_padding_zero_witness:
  "wire_ok ieee_ops fresh_animation
   \<and> (\<exists>bs. pack_buffer ieee_ops fresh_animation False = Inr bs
          \<and> take 4 (drop 4 bs) = replicate 4 0
          \<and> drop 26 (entry_chunk bs 0) = replicate 6 0
          \<and> drop 26 (entry_chunk bs 1) = replicate 6 0)"
proof -
  obtain bs where bs: "pack_buffer ieee_ops fresh_animation False = Inr bs"
    using C8_padding_zero [of ieee_ops fresh_animation False] fresh_wire_ok by blast
  have "length (items fresh_animation) = 2" by (simp add: fresh_animation_def)
  with bs have "take 4 (drop 4 bs) = replicate 4 0
      \<and> drop 26 (entry_chunk bs 0) = replicate 6 0
      \<and> drop 26 (entry_chunk bs 1) = replicate 6 0"
    using C8_padding_zero [of ieee_ops fresh_animation False bs] by simp
  with bs fresh_wire_ok show ?thesis by blast
qed

section \<open>Encoding, then decoding\<close>

lemma struct_offset_Inr: "struct_offset len off sz = Inr p \<Longrightarrow> p + sz \<le> len"
  by (auto simp: struct_offset_def Let_def split: if_splits)

lemma sound_unpack_chunk:
  assumes "JAUSoundAnimationSound_unpack fo JAUSoundAnimationSound_init data off be lk = Inr s"
  shows "\<exists>chunk. length chunk = 32 \<and> sound_of_chunk fo be lk chunk = Inr s"
proof -
  from assms obtain start where start: "struct_offset (length data) off 32 = Inr start"
    by (cases "struct_offset (length data) off 32")
      (simp_all add: JAUSoundAnimationSound_unpack_def unpack_from_def)
  define chunk where "chunk = take 32 (drop start data)"
  from start have len: "length chunk = 32"
    by (auto simp: chunk_def dest: struct_offset_Inr)
  have "unpack_from fo be sound_STRUCT data off = Inr (struct_unpack fo be sound_STRUCT chunk)"
    using start by (simp add: unpack_from_def chunk_def)
  moreover have "unpack_from fo be sound_STRUCT chunk 0
      = Inr (struct_unpack fo be sound_STRUCT chunk)"
    using len by (simp add: unpack_from_def struct_offset_zero)
  ultimately have "sound_of_chunk fo be lk chunk
      = JAUSoundAnimationSound_unpack fo JAUSoundAnimationSound_init data off be lk"
    by (simp add: sound_of_chunk_def JAUSoundAnimationSound_unpack_def)
  with assms len show ?thesis by auto
qed

lemma unpack_sounds_shape:
  "unpack_sounds fo self data off be n = Inr A \<Longrightarrow>
   \<exists>ss. A = self\<lparr>items := items self @ ss\<rparr> \<and> length ss = n
     \<and> (\<forall>s\<in>set ss. \<exists>chunk. length chunk = 32
           \<and> sound_of_chunk fo be (lookup_of self) chunk = Inr s)"
proof (induction n arbitrary: self off)
  case 0
  then show ?case by simp
next
  case (Suc n)
  from Suc.prems obtain s where
    s: "JAUSoundAnimationSound_unpack fo JAUSoundAnimationSound_init data off be (lookup_of self)
          = Inr s"
    and rest: "unpack_sounds fo (self\<lparr>items := items self @ [s]\<rparr>) data (off + 32) be n = Inr A"
    by (auto simp: bind_eq_Inr)
  from Suc.IH [OF rest] obtain ss where ss: "A = self\<lparr>items := items self @ [s] @ ss\<rparr>"
    "length ss = n"
    "\<forall>x\<in>set ss. \<exists>chunk. length chunk = 32
        \<and> sound_of_chunk fo be (lookup_of self) chunk = Inr x"
    by auto
  from s have "\<exists>chunk. length chunk = 32 \<and> sound_of_chunk fo be (lookup_of self) chunk = Inr s"
    by (rule sound_unpack_chunk)
  with ss have "A = self\<lparr>items := items self @ (s # ss)\<rparr> \<and> length (s # ss) = Suc n
     \<and> (\<forall>x\<in>set (s # ss). \<exists>chunk. length chunk = 32
           \<and> sound_of_chunk fo be (lookup_of self) chunk = Inr x)"
    by simp
  then show ?case by blast
qed

lemma from_buffer_shape:
  assumes "from_buffer fo lk buf off be = Inr A"
  shows "lookup_of A = lk \<and> uint_fits 1 (unk2 A) \<and> uint_fits 1 (unk3 A)
     \<and> uint_fits 2 (PyInt (int (length (items A))))
     \<and> (\<forall>s\<in>set (items A). \<exists>chunk. length chunk = 32 \<and> sound_of_chunk fo be lk chunk = Inr s)"
proof -
  from assms obtain start where start: "struct_offset (length buf) off 8 = Inr start"
    by (cases "struct_offset (length buf) off 8")
      (simp_all add: from_buffer_def JAUSoundAnimation_unpack_def unpack_from_def)
  define h where "h = take 8 (drop start buf)"
  from start have len: "length h = 8"
    by (auto simp: h_def dest: struct_offset_Inr)
  define n where "n = from_bytes be (take 2 h)"
  define u2 where "u2 = PyInt (from_bytes be (take 1 (drop 2 h)))"
  define u3 where "u3 = PyInt (from_bytes be (take 1 (drop 3 h)))"
  have fit: "uint_fits 2 (PyInt n)" "uint_fits 1 u2" "uint_fits 1 u3"
    using len by (auto simp: n_def u2_def u3_def intro!: uint_fits_from_bytes)
  have "unpack_from fo be anm_STRUCT buf off = Inr [PyInt n, u2, u3]"
    using start by (simp add: unpack_from_def h_def struct_unpack_anm n_def u2_def u3_def)
  with assms have
    "unpack_sounds fo ((JAUSoundAnimation_init lk)\<lparr>unk2 := u2, unk3 := u3\<rparr>) buf (off + 8) be
       (nat n) = Inr A"
    by (simp add: from_buffer_def JAUSoundAnimation_unpack_def)
  from unpack_sounds_shape [OF this] obtain ss where
    A: "A = \<lparr>items = ss, lookup_of = lk, unk2 = u2, unk3 = u3\<rparr>" and l: "length ss = nat n"
    and ch: "\<forall>s\<in>set ss. \<exists>chunk. length chunk = 32 \<and> sound_of_chunk fo be lk chunk = Inr s"
    by (auto simp: JAUSoundAnimation_init_def)
  from fit(1) l have "uint_fits 2 (PyInt (int (length ss)))"
    by (simp add: uint_fits_def)
  with A fit ch show ?thesis by simp
qed

lemma sounds_bytes_decode:
  "\<forall>s\<in>set ss. \<exists>b. sound_bytes fo be lk s = Inr b \<and> length b = 32
       \<and> sound_of_chunk fo be lk b = Inr s \<Longrightarrow>
   \<exists>body. sounds_bytes fo be lk ss = Inr body \<and> decode_chunks fo be lk (length ss) body = Inr ss"
proof (induction ss)
  case Nil
  show ?case by simp
next
  case (Cons s ss)
  then obtain b body where b: "sound_bytes fo be lk s = Inr b" "length b = 32"
    "sound_of_chunk fo be lk b = Inr s"
    and body: "sounds_bytes fo be lk ss = Inr body"
    "decode_chunks fo be lk (length ss) body = Inr ss"
    by auto
  then have "sounds_bytes fo be lk (s # ss) = Inr (b @ body)
      \<and> decode_chunks fo be lk (length (s # ss)) (b @ body) = Inr (s # ss)"
    by simp
  then show ?case by blast
qed

lemma header_unpack_pack:
  assumes "uint_fits 2 n" "uint_fits 1 u2" "uint_fits 1 u3"
  shows "\<exists>h. struct_pack fo be anm_STRUCT [n, u2, u3] = Inr h \<and> length h = 8
     \<and> PyInt (from_bytes be (take 2 h)) = n
     \<and> PyInt (from_bytes be (take 1 (drop 2 h))) = u2
     \<and> PyInt (from_bytes be (take 1 (drop 3 h))) = u3"
proof -
  from assms have "fits fo anm_STRUCT [n, u2, u3]"
    by (simp add: anm_STRUCT_def)
  then obtain h where h: "struct_pack fo be anm_STRUCT [n, u2, u3] = Inr h"
    "struct_unpack fo be anm_STRUCT h = [n, u2, u3]"
    using struct_unpack_pack by blast
  from h(1) have "length h = 8" by (auto dest: struct_pack_length)
  with h show ?thesis by (simp add: struct_unpack_anm)
qed

lemma round_trip_fixed:
  assumes dec: "from_buffer fo lk buf0 off0 be0 = Inr A"
    and lk: "distinct (map fst lk)"
    and fx: "\<forall>s\<in>set (items A).
        f32_fixed fo (start_frame s) \<and> f32_fixed fo (unk8 s) \<and> f32_fixed fo (pitch s)"
  shows "\<exists>bs. pack_buffer fo A be = Inr bs \<and> from_buffer fo lk bs 0 be = Inr A"
proof -
  from from_buffer_shape [OF dec] have lkA: "lookup_of A = lk"
    and u: "uint_fits 2 (PyInt (int (length (items A))))" "uint_fits 1 (unk2 A)"
      "uint_fits 1 (unk3 A)"
    and ch: "\<forall>s\<in>set (items A). \<exists>chunk. length chunk = 32
        \<and> sound_of_chunk fo be0 lk chunk = Inr s"
    by simp_all
  have "\<forall>s\<in>set (items A). \<exists>b. sound_bytes fo be lk s = Inr b \<and> length b = 32
       \<and> sound_of_chunk fo be lk b = Inr s"
  proof
    fix s
    assume s: "s \<in> set (items A)"
    with ch obtain chunk where c: "length chunk = 32" "sound_of_chunk fo be0 lk chunk = Inr s"
      by blast
    from c(1) have "32 \<le> length chunk" by simp
    moreover note c(2)
    moreover from fx s have "f32_fixed fo (start_frame s)" "f32_fixed fo (unk8 s)"
      "f32_fixed fo (pitch s)"
      by auto
    ultimately show "\<exists>b. sound_bytes fo be lk s = Inr b \<and> length b = 32
       \<and> sound_of_chunk fo be lk b = Inr s"
      using lk by (intro sound_of_chunk_bytes)
  qed
  then obtain body where body: "sounds_bytes fo be lk (items A) = Inr body"
    "decode_chunks fo be lk (length (items A)) body = Inr (items A)"
    using sounds_bytes_decode by blast
  from header_unpack_pack [OF u] obtain h where
    h: "struct_pack fo be anm_STRUCT [PyInt (int (length (items A))), unk2 A, unk3 A] = Inr h"
    and lh: "length h = 8"
    and hv: "from_bytes be (take 2 h) = int (length (items A))"
      "PyInt (from_bytes be (take 1 (drop 2 h))) = unk2 A"
      "PyInt (from_bytes be (take 1 (drop 3 h))) = unk3 A"
    by auto
  from h body(1) lkA have enc: "pack_buffer fo A be = Inr (h @ body)"
    by (simp add: pack_buffer_def makebin_concat)
  have "from_buffer fo lk (h @ body) 0 be =
     bind (decode_chunks fo be lk (nat (from_bytes be (take 2 (drop (nat 0) (h @ body)))))
             (drop (nat 0 + 8) (h @ body)))
       (\<lambda>ss. Inr \<lparr>items = ss, lookup_of = lk,
                   unk2 = PyInt (from_bytes be (take 1 (drop (nat 0 + 2) (h @ body)))),
                   unk3 = PyInt (from_bytes be (take 1 (drop (nat 0 + 3) (h @ body))))\<rparr>)"
    using lh by (intro from_buffer_chunks) simp_all
  also have "\<dots> = Inr \<lparr>items = items A, lookup_of = lk, unk2 = unk2 A, unk3 = unk3 A\<rparr>"
    using lh hv body(2) by (simp del: One_nat_def add_2_eq_Suc add_2_eq_Suc')
  also have "\<lparr>items = items A, lookup_of = lk, unk2 = unk2 A, unk3 = unk3 A\<rparr> = A"
    using lkA by simp
  finally show ?thesis using enc by blast
qed

lemma decoded_floats_fixed:
  assumes "32 \<le> length chunk" "sound_of_chunk ieee_ops be lk chunk = Inr s"
  shows "f32_fixed ieee_ops (start_frame s) \<and> f32_fixed ieee_ops (unk8 s)
     \<and> f32_fixed ieee_ops (pitch s)"
  using assms
  by (auto simp: sound_of_chunk_full struct_unpack_sound bind_eq_Inr ieee_ops_fixed)

text \<open>
  C2 (round trip of a decoded animation), with the binary32 conversions of IEEE hardware.
  Let \<open>A\<close> be what \<open>from_buffer\<close> returned for some buffer, offset and byte order with the
  table \<open>lk\<close> (a dict: its names are distinct). Then \<open>pack_buffer\<close> returns bytes for \<open>A\<close>,
  and decoding them at offset 0 with the same table and byte order gives \<open>A\<close>, every
  attribute of every entry with its value and every float with its bit pattern, in either
  byte order.
\<close>

theorem C2_round_trip:
  assumes dec: "from_buffer ieee_ops lk buf0 off0 be0 = Inr A"
    and lk: "distinct (map fst lk)"
  shows "\<exists>bs. pack_buffer ieee_ops A be = Inr bs \<and> from_buffer ieee_ops lk bs 0 be = Inr A"
proof -
  from from_buffer_shape [OF dec] have
    ch: "\<forall>s\<in>set (items A). \<exists>chunk. length chunk = 32
        \<and> sound_of_chunk ieee_ops be0 lk chunk = Inr s"
    by simp
  have "\<forall>s\<in>set (items A).
      f32_fixed ieee_ops (start_frame s) \<and> f32_fixed ieee_ops (unk8 s)
      \<and> f32_fixed ieee_ops (pitch s)"
  proof
    fix s
    assume "s \<in> set (items A)"
    with ch obtain chunk where c: "length chunk = 32"
      "sound_of_chunk ieee_ops be0 lk chunk = Inr s"
      by blast
    from c(1) have "32 \<le> length chunk" by simp
    then show "f32_fixed ieee_ops (start_frame s) \<and> f32_fixed ieee_ops (unk8 s)
      \<and> f32_fixed ieee_ops (pitch s)"
      using c(2) by (rule decoded_floats_fixed)
  qed
  with dec lk show ?thesis
    by (rule round_trip_fixed)
qed

lemma snan_decoded:
  "from_buffer ieee_ops one_name_table snan_buffer 0 True = Inr snan_animation"
  by code_simp

theorem C2_round_trip_witness:
  "from_buffer ieee_ops one_name_table snan_buffer 0 True = Inr snan_animation
   \<and> distinct (map fst one_name_table)
   \<and> (\<exists>bs. pack_buffer ieee_ops snan_animation False = Inr bs
          \<and> from_buffer ieee_ops one_name_table bs 0 False = Inr snan_animation)"
proof -
  have lk: "distinct (map fst one_name_table)"
    by (simp add: one_name_table_def)
  from C2_round_trip [OF snan_decoded lk, of False] snan_decoded lk
  show ?thesis by simp
qed

section \<open>Unknown IDs and names\<close>

lemma sound_of_chunk_unresolved:
  "32 \<le> length chunk \<Longrightarrow> find_name lk (from_bytes be (take 4 chunk)) = Inl KeyError \<Longrightarrow>
   sound_of_chunk fo be lk chunk = Inl KeyError"
  by (simp add: sound_of_chunk_full struct_unpack_sound)

lemma sound_of_chunk_cases:
  assumes "32 \<le> length chunk"
  shows "sound_of_chunk fo be lk chunk = Inl KeyError \<or> (\<exists>s. sound_of_chunk fo be lk chunk = Inr s)"
proof (cases "find_name lk (from_bytes be (take 4 chunk)) = Inl KeyError")
  case True
  with assms show ?thesis by (simp add: sound_of_chunk_unresolved)
next
  case False
  with assms show ?thesis using sound_of_chunk_resolved by blast
qed

lemma decode_chunks_keyerror:
  "j < n \<Longrightarrow> 32 * Suc j \<le> length data \<Longrightarrow>
   find_name lk (from_bytes be (take 4 (take 32 (drop (32 * j) data)))) = Inl KeyError \<Longrightarrow>
   decode_chunks fo be lk n data = Inl KeyError"
proof (induction n arbitrary: data j)
  case 0
  then show ?case by simp
next
  case (Suc n)
  from Suc.prems(2) have len: "32 \<le> length (take 32 data)" by simp
  show ?case
  proof (cases j)
    case 0
    with Suc.prems(3) len have "sound_of_chunk fo be lk (take 32 data) = Inl KeyError"
      by (intro sound_of_chunk_unresolved) simp_all
    then show ?thesis by simp
  next
    case (Suc k)
    with Suc.prems have "k < n" "32 * Suc k \<le> length (drop 32 data)"
      "find_name lk (from_bytes be (take 4 (take 32 (drop (32 * k) (drop 32 data)))))
        = Inl KeyError"
      unfolding drop_chunk by simp_all
    then have "decode_chunks fo be lk n (drop 32 data) = Inl KeyError"
      by (rule Suc.IH)
    with sound_of_chunk_cases [OF len, of fo be lk] show ?thesis by auto
  qed
qed

lemma from_buffer_keyerror:
  assumes off: "0 \<le> off"
    and j: "j < nat (from_bytes be (take 2 (drop (nat off) buf)))"
    and len: "nat off + 8 + 32 * Suc j \<le> length buf"
    and un: "find_name lk (from_bytes be (take 4 (entry_chunk (drop (nat off) buf) j)))
        = Inl KeyError"
  shows "from_buffer fo lk buf off be = Inl KeyError"
proof -
  from len have len8: "nat off + 8 \<le> length buf" by simp
  from len have "32 * Suc j \<le> length (drop (nat off + 8) buf)" by simp
  moreover from un have "find_name lk (from_bytes be
      (take 4 (take 32 (drop (32 * j) (drop (nat off + 8) buf))))) = Inl KeyError"
    by (simp only: entry_chunk_at)
  ultimately have "decode_chunks fo be lk (nat (from_bytes be (take 2 (drop (nat off) buf))))
      (drop (nat off + 8) buf) = Inl KeyError"
    using j by (intro decode_chunks_keyerror)
  then show ?thesis
    unfolding from_buffer_chunks [OF off len8] by simp
qed

lemma sounds_bytes_absent:
  "s \<in> set ss \<Longrightarrow> find_id lk (sound s) = Inl e \<Longrightarrow> \<exists>e'. sounds_bytes fo be lk ss = Inl e'"
proof (induction ss)
  case Nil
  then show ?case by simp
next
  case (Cons x xs)
  show ?case
  proof (cases "sound_bytes fo be lk x")
    case (Inl e')
    then show ?thesis by simp
  next
    case (Inr b)
    with Cons.prems have "s \<in> set xs" by (auto simp: sound_bytes_def)
    with Cons obtain e' where "sounds_bytes fo be lk xs = Inl e'" by blast
    with Inr show ?thesis by simp
  qed
qed

lemma makebin_absent:
  assumes "s \<in> set (items A)" "find_id (lookup_of A) (sound s) = Inl e"
  shows "\<exists>e'. makebin fo A be = Inl e'"
proof -
  from assms obtain e' where "sounds_bytes fo be (lookup_of A) (items A) = Inl e'"
    using sounds_bytes_absent by blast
  then show ?thesis
    by (cases "struct_pack fo be anm_STRUCT [PyInt (int (length (items A))), unk2 A, unk3 A]")
      (simp_all add: makebin_concat)
qed

lemma sounds_bytes_first_absent:
  "list_all (entry_packs fo lk) pre \<Longrightarrow> find_id lk (sound s) = Inl e \<Longrightarrow>
   sounds_bytes fo be lk (pre @ s # post) = Inl e"
proof (induction pre)
  case Nil
  then show ?case by (simp add: sound_bytes_def)
next
  case (Cons x xs)
  then obtain b where "sound_bytes fo be lk x = Inr b"
    using entry_packs_bytes [of fo lk x be] by auto
  with Cons show ?case by simp
qed

lemma makebin_first_absent:
  assumes "items A = pre @ s # post" "length (items A) < 65536"
    "uint_packs 1 (unk2 A)" "uint_packs 1 (unk3 A)"
    "list_all (entry_packs fo (lookup_of A)) pre" "find_id (lookup_of A) (sound s) = Inl e"
  shows "makebin fo A be = Inl e"
proof -
  from assms(2-4) have "packs fo anm_STRUCT [PyInt (int (length (items A))), unk2 A, unk3 A]"
    by (simp add: anm_STRUCT_def uint_packs_def)
  then obtain h where
    "struct_pack fo be anm_STRUCT [PyInt (int (length (items A))), unk2 A, unk3 A] = Inr h"
    using packs_struct_pack by blast
  moreover have "sounds_bytes fo be (lookup_of A) (items A) = Inl e"
    unfolding assms(1) using assms(5,6) by (rule sounds_bytes_first_absent)
  ultimately show ?thesis by (simp add: makebin_concat)
qed

text \<open>
  C5 (unknown ID or name). Decoding fails with \<open>KeyError\<close> when the buffer holds, at its
  place among the entries that the header declares, an entry whose ID no name of the table
  has. Encoding an animation that has an entry whose name is not in the table returns no
  bytes; the error is \<open>KeyError\<close> when the header values fit their fields and the entries
  before the first such entry can be packed.
\<close>

theorem C5_lookup_failures:
  "(0 \<le> off \<and> j < nat (from_bytes be (take 2 (drop (nat off) buf)))
      \<and> nat off + 8 + 32 * Suc j \<le> length buf
      \<and> find_name lk (from_bytes be (take 4 (entry_chunk (drop (nat off) buf) j))) = Inl KeyError
     \<longrightarrow> from_buffer fo lk buf off be = Inl KeyError)
   \<and> (s \<in> set (items A) \<and> find_id (lookup_of A) (sound s) = Inl KeyError
     \<longrightarrow> (\<exists>e. pack_buffer fo A be = Inl e))
   \<and> (items A = pre @ s # post \<and> length (items A) < 65536
      \<and> uint_packs 1 (unk2 A) \<and> uint_packs 1 (unk3 A)
      \<and> list_all (entry_packs fo (lookup_of A)) pre
      \<and> find_id (lookup_of A) (sound s) = Inl KeyError
     \<longrightarrow> pack_buffer fo A be = Inl KeyError)"
  using from_buffer_keyerror [of off j be buf lk fo] makebin_absent [of s A KeyError fo be]
    makebin_first_absent [of A pre s post fo KeyError be]
  unfolding pack_buffer_def by blast

theorem C5_lookup_failures_witness:
  "0 < nat (from_bytes True (take 2 (drop (nat 0) one_entry_buffer)))
   \<and> nat 0 + 8 + 32 * Suc 0 \<le> length one_entry_buffer
   \<and> find_name [] (from_bytes True (take 4 (entry_chunk (drop (nat 0) one_entry_buffer) 0)))
       = Inl KeyError
   \<and> from_buffer ieee_ops [] one_entry_buffer 0 True = Inl KeyError
   \<and> items absent_animation
       = [JAUSoundAnimationSound_init] @ JAUSoundAnimationSound_init\<lparr>sound := PyStr ''zz''\<rparr> # []
   \<and> list_all (entry_packs ieee_ops (lookup_of absent_animation)) [JAUSoundAnimationSound_init]
   \<and> find_id (lookup_of absent_animation) (sound (JAUSoundAnimationSound_init\<lparr>sound := PyStr ''zz''\<rparr>))
       = Inl KeyError
   \<and> pack_buffer ieee_ops absent_animation True = Inl KeyError"
proof -
  have d: "0 < nat (from_bytes True (take 2 (drop (nat 0) one_entry_buffer)))"
    "nat 0 + 8 + 32 * Suc 0 \<le> length one_entry_buffer"
    "find_name [] (from_bytes True (take 4 (entry_chunk (drop (nat 0) one_entry_buffer) 0)))
       = Inl KeyError"
    by code_simp+
  have e: "items absent_animation
       = [JAUSoundAnimationSound_init] @ JAUSoundAnimationSound_init\<lparr>sound := PyStr ''zz''\<rparr> # []"
    "length (items absent_animation) < 65536"
    "uint_packs 1 (unk2 absent_animation)" "uint_packs 1 (unk3 absent_animation)"
    by (simp_all add: absent_animation_def uint_packs_def)
  have p: "list_all (entry_packs ieee_ops (lookup_of absent_animation))
      [JAUSoundAnimationSound_init]"
    "find_id (lookup_of absent_animation)
       (sound (JAUSoundAnimationSound_init\<lparr>sound := PyStr ''zz''\<rparr>)) = Inl KeyError"
    by code_simp+
  from d e p
    C5_lookup_failures [of 0 0 True one_entry_buffer "[]" ieee_ops
      "JAUSoundAnimationSound_init\<lparr>sound := PyStr ''zz''\<rparr>" absent_animation
      "[JAUSoundAnimationSound_init]" "[]"]
  show ?thesis by simp
qed

theorem C5_counterexample:
  "items absent_unfit_animation = [JAUSoundAnimationSound_init\<lparr>sound := PyStr ''zz''\<rparr>]
   \<and> find_id (lookup_of absent_unfit_animation)
        (sound (JAUSoundAnimationSound_init\<lparr>sound := PyStr ''zz''\<rparr>)) = Inl KeyError
   \<and> pack_buffer ieee_ops absent_unfit_animation True = Inl StructError"
  by (simp add: absent_unfit_animation_def find_id_def pack_buffer_def makebin_concat
      anm_STRUCT_def pack_uint_def to_bytes_def)

section \<open>Truncated buffers\<close>








section \<open>The JSON document\<close>

lemma sound_from_entry_dict: "sound_from_entry (sound_dict s) = Inr (reloaded s)"
  by (cases s)
    (simp add: sound_from_entry_def sound_dict_def getitem_def reloaded_def
      JAUSoundAnimationSound_init_def)

lemma append_entries_dicts:
  "append_entries anm (map sound_dict ss) = Inr (anm\<lparr>items := items anm @ map reloaded ss\<rparr>)"
  by (induction ss arbitrary: anm) (simp_all add: sound_from_entry_dict)

text \<open>
  C4 (JSON round trip), as the code has it. Reading back the document that \<^verbatim>\<open>dump_json\<close>
  writes for an animation keeps \<open>unk2\<close>, \<open>unk3\<close> and eight attributes of every entry, but
  puts the value of \<^verbatim>\<open>start_frame\<close> where the sound name was and leaves \<^verbatim>\<open>start_frame\<close>
  at 0.0; so the animation of the one-entry buffer does not come back.
\<close>

theorem C4_from_json_dump:
  "from_json lk (dump_json A)
     = Inr \<lparr>items = map reloaded (items A), lookup_of = lk, unk2 = unk2 A, unk3 = unk3 A\<rparr>
   \<and> from_json one_name_table (dump_json one_entry_animation) \<noteq> Inr one_entry_animation"
proof -
  have a: "from_json lk (dump_json A)
     = Inr \<lparr>items = map reloaded (items A), lookup_of = lk, unk2 = unk2 A, unk3 = unk3 A\<rparr>"
    for lk A
    by (simp add: from_json_def dump_json_def getitem_def iter_def append_entries_dicts
        JAUSoundAnimation_init_def)
  have "from_json one_name_table (dump_json one_entry_animation) \<noteq> Inr one_entry_animation"
    unfolding a by (simp add: one_entry_animation_def reloaded_def)
  with a show ?thesis by simp
qed

end
